theory Spec2Isabelle
  imports Complex_Main "HOL-Library.Multiset"
begin

section \<open>Go float64 values\<close>

text \<open>
  The physics package computes with Go \<^verbatim>\<open>float64\<close>. The model keeps the special
  values of IEEE 754 apart from the finite ones: a finite value carries a real number
  (rounding and overflow of finite results are idealised away, and the two zeros are
  identified, the zero being the positive one), while the infinities and not-a-number
  follow the IEEE rules that Go implements. Division by zero therefore yields an
  infinity or not-a-number as it does in Go, and never HOL's \<open>x / 0 = 0\<close>.
\<close>

datatype float64 = Fin real | PInf | NInf | NaN

fun isNaN :: "float64 \<Rightarrow> bool" where
  "isNaN NaN = True"
| "isNaN _ = False"

fun isFin :: "float64 \<Rightarrow> bool" where
  "isFin (Fin _) = True"
| "isFin _ = False"

fun val :: "float64 \<Rightarrow> real" where
  "val (Fin a) = a"
| "val _ = 0"

fun f_neg :: "float64 \<Rightarrow> float64" where
  "f_neg (Fin a) = Fin (- a)"
| "f_neg PInf = NInf"
| "f_neg NInf = PInf"
| "f_neg NaN = NaN"

fun f_add :: "float64 \<Rightarrow> float64 \<Rightarrow> float64" where
  "f_add (Fin a) (Fin b) = Fin (a + b)"
| "f_add NaN _ = NaN"
| "f_add _ NaN = NaN"
| "f_add PInf NInf = NaN"
| "f_add NInf PInf = NaN"
| "f_add PInf _ = PInf"
| "f_add _ PInf = PInf"
| "f_add NInf _ = NInf"
| "f_add _ NInf = NInf"

definition f_sub :: "float64 \<Rightarrow> float64 \<Rightarrow> float64" where
  "f_sub x y = f_add x (f_neg y)"

text \<open>The sign of a product with an infinity; a zero times an infinity is not a number.\<close>

definition infTimes :: "bool \<Rightarrow> real \<Rightarrow> float64" where
  "infTimes positive a =
     (if a = 0 then NaN else if (0 < a) = positive then PInf else NInf)"

fun f_mul :: "float64 \<Rightarrow> float64 \<Rightarrow> float64" where
  "f_mul (Fin a) (Fin b) = Fin (a * b)"
| "f_mul NaN _ = NaN"
| "f_mul _ NaN = NaN"
| "f_mul (Fin a) PInf = infTimes True a"
| "f_mul (Fin a) NInf = infTimes False a"
| "f_mul PInf (Fin b) = infTimes True b"
| "f_mul NInf (Fin b) = infTimes False b"
| "f_mul PInf PInf = PInf"
| "f_mul NInf NInf = PInf"
| "f_mul PInf NInf = NInf"
| "f_mul NInf PInf = NInf"

fun f_div :: "float64 \<Rightarrow> float64 \<Rightarrow> float64" where
  "f_div (Fin a) (Fin b) =
     (if b \<noteq> 0 then Fin (a / b)
      else if a = 0 then NaN else if 0 < a then PInf else NInf)"
| "f_div NaN _ = NaN"
| "f_div _ NaN = NaN"
| "f_div (Fin a) _ = Fin 0"
| "f_div PInf (Fin b) = (if 0 \<le> b then PInf else NInf)"
| "f_div NInf (Fin b) = (if 0 \<le> b then NInf else PInf)"
| "f_div _ _ = NaN"

text \<open>Go's \<^verbatim>\<open><\<close> and \<^verbatim>\<open>>\<close>: every comparison with not-a-number is false.\<close>

fun f_lt :: "float64 \<Rightarrow> float64 \<Rightarrow> bool" where
  "f_lt (Fin a) (Fin b) = (a < b)"
| "f_lt NaN _ = False"
| "f_lt _ NaN = False"
| "f_lt NInf NInf = False"
| "f_lt NInf _ = True"
| "f_lt PInf _ = False"
| "f_lt (Fin a) PInf = True"
| "f_lt (Fin a) NInf = False"

definition f_gt :: "float64 \<Rightarrow> float64 \<Rightarrow> bool" where
  "f_gt x y = f_lt y x"

text \<open>\<^verbatim>\<open>math.Abs\<close>, \<^verbatim>\<open>math.Sqrt\<close>, \<^verbatim>\<open>math.Round\<close> (half away from zero).\<close>

fun f_abs :: "float64 \<Rightarrow> float64" where
  "f_abs (Fin a) = Fin \<bar>a\<bar>"
| "f_abs PInf = PInf"
| "f_abs NInf = PInf"
| "f_abs NaN = NaN"

fun f_sqrt :: "float64 \<Rightarrow> float64" where
  "f_sqrt (Fin a) = (if 0 \<le> a then Fin (sqrt a) else NaN)"
| "f_sqrt PInf = PInf"
| "f_sqrt NInf = NaN"
| "f_sqrt NaN = NaN"

definition roundHalfAway :: "real \<Rightarrow> int" where
  "roundHalfAway a = (if 0 \<le> a then \<lfloor>a + 1 / 2\<rfloor> else - \<lfloor>- a + 1 / 2\<rfloor>)"

fun f_round :: "float64 \<Rightarrow> float64" where
  "f_round (Fin a) = Fin (of_int (roundHalfAway a))"
| "f_round x = x"

text \<open>
  \<^verbatim>\<open>math.Max\<close> and \<^verbatim>\<open>math.Min\<close>: Go tests for the dominating infinity first, then
  for not-a-number, then compares.
\<close>

fun f_max :: "float64 \<Rightarrow> float64 \<Rightarrow> float64" where
  "f_max PInf _ = PInf"
| "f_max _ PInf = PInf"
| "f_max NaN _ = NaN"
| "f_max _ NaN = NaN"
| "f_max NInf y = y"
| "f_max x NInf = x"
| "f_max (Fin a) (Fin b) = Fin (max a b)"

fun f_min :: "float64 \<Rightarrow> float64 \<Rightarrow> float64" where
  "f_min NInf _ = NInf"
| "f_min _ NInf = NInf"
| "f_min NaN _ = NaN"
| "f_min _ NaN = NaN"
| "f_min PInf y = y"
| "f_min x PInf = x"
| "f_min (Fin a) (Fin b) = Fin (min a b)"

text \<open>
  \<^verbatim>\<open>math.Signbit\<close>: true for negative values. (The model has a single, positive zero;
  the sign bit of not-a-number is taken as clear.)
\<close>

fun Signbit :: "float64 \<Rightarrow> bool" where
  "Signbit (Fin a) = (a < 0)"
| "Signbit NInf = True"
| "Signbit _ = False"

text \<open>\<^verbatim>\<open>math.Pow(x, n)\<close> for the literal exponents 3 and 4 of the source.\<close>

fun f_pow :: "float64 \<Rightarrow> nat \<Rightarrow> float64" where
  "f_pow x 0 = Fin 1"
| "f_pow x (Suc n) = f_mul x (f_pow x n)"

text \<open>
  Conversions. \<^verbatim>\<open>float64(i)\<close> is exact in the model. \<^verbatim>\<open>int(x)\<close> truncates toward
  zero; for a value that is not finite Go leaves the result to the implementation, and
  the model fixes it as the value amd64 produces. Go's \<^verbatim>\<open>int\<close> is taken as unbounded:
  radii, indices and the environment size stay far from the 64-bit limits.
\<close>

definition ofInt :: "int \<Rightarrow> float64" where
  "ofInt i = Fin (of_int i)"

definition truncReal :: "real \<Rightarrow> int" where
  "truncReal a = (if 0 \<le> a then \<lfloor>a\<rfloor> else \<lceil>a\<rceil>)"

fun toInt :: "float64 \<Rightarrow> int" where
  "toInt (Fin a) = truncReal a"
| "toInt _ = - (2 ^ 63)"

text \<open>\<^verbatim>\<open>uint8(x)\<close> of a float: truncation, kept to eight bits.\<close>

definition toUint8 :: "float64 \<Rightarrow> nat" where
  "toUint8 x = nat (toInt x mod 256)"

section \<open>Two-dimensional vectors\<close>

text \<open>
  Every \<^verbatim>\<open>vector.Vector\<close> the physics package builds has two components
  (\<^verbatim>\<open>vector.New(2)\<close>, \<^verbatim>\<open>NewWithValues([]float64{x, y})\<close>), so a vector is a pair and
  \<^verbatim>\<open>vector.Dot\<close>, which fails only on operands of different size, always succeeds.
  The functions of the vector package that update their receiver in place are modelled
  by the value they leave in it.
\<close>

type_synonym vec = "float64 \<times> float64"

definition vzero :: vec where
  "vzero = (Fin 0, Fin 0)"

definition Add :: "vec \<Rightarrow> vec \<Rightarrow> vec" where
  "Add u v = (f_add (fst u) (fst v), f_add (snd u) (snd v))"

definition Subtract :: "vec \<Rightarrow> vec \<Rightarrow> vec" where
  "Subtract u v = (f_sub (fst u) (fst v), f_sub (snd u) (snd v))"

definition Scale :: "vec \<Rightarrow> float64 \<Rightarrow> vec" where
  "Scale v k = (f_mul (fst v) k, f_mul (snd v) k)"

definition Dot :: "vec \<Rightarrow> vec \<Rightarrow> float64" where
  "Dot u v = f_add (f_mul (fst u) (fst v)) (f_mul (snd u) (snd v))"

definition Magnitude :: "vec \<Rightarrow> float64" where
  "Magnitude v = f_sqrt (f_add (f_mul (fst v) (fst v)) (f_mul (snd v) (snd v)))"

section \<open>Particles\<close>

text \<open>
  A \<^verbatim>\<open>*Particle\<close> is an address (a natural number) into a heap of particle records;
  \<^verbatim>\<open>nil\<close> is \<open>None\<close>. The record holds the fields of \<^verbatim>\<open>Particle\<close> and of the
  \<^verbatim>\<open>particleData\<close> struct embedded in it. The colour proxies \<^verbatim>\<open>R\<close>, \<^verbatim>\<open>G\<close>, \<^verbatim>\<open>A\<close>
  are the fields \<open>red\<close>, \<open>green\<close>, \<open>alpha\<close>. \<^verbatim>\<open>MergingWith\<close>, a map used as a set
  of particle pointers, is the list of its keys without repetition; ranging over the map
  visits the keys in the order of the list.
\<close>

type_synonym addr = nat

record Particle =
  Mass :: float64
  CloseCharge :: float64
  FarCharge :: float64
  Position :: vec
  Velocity :: vec
  trackHistory :: bool
  historySize :: int
  positionHistory :: "vec list"
  Radius :: int
  red :: nat
  green :: nat
  alpha :: nat
  merging :: bool
  MergingWith :: "addr list"
  bouncing :: bool
  bouncingAgainst :: "addr option"

text \<open>The zero value of the struct, as a composite literal leaves the fields not named.\<close>

definition zeroParticle :: Particle where
  "zeroParticle =
     \<lparr>Mass = Fin 0, CloseCharge = Fin 0, FarCharge = Fin 0,
      Position = vzero, Velocity = vzero,
      trackHistory = False, historySize = 0, positionHistory = [],
      Radius = 0, red = 0, green = 0, alpha = 0,
      merging = False, MergingWith = [], bouncing = False, bouncingAgainst = None\<rparr>"

definition SqrtPi :: float64 where
  "SqrtPi = Fin (sqrt pi)"

definition SetMass :: "float64 \<Rightarrow> Particle \<Rightarrow> Particle" where
  "SetMass mass p =
     p\<lparr>Mass := mass,
       Radius := toInt (f_max (f_round (f_div (f_sqrt mass) (f_mul (Fin 2) SqrtPi))) (Fin 1))\<rparr>"

definition SetCloseCharge :: "float64 \<Rightarrow> Particle \<Rightarrow> Particle" where
  "SetCloseCharge closeCharge0 p =
     (let closeCharge = f_max (Fin (- 1)) (f_min closeCharge0 (Fin 1));
          p1 = p\<lparr>CloseCharge := closeCharge\<rparr>
      in if f_lt closeCharge (Fin 0)
         then p1\<lparr>red := toUint8 (f_mul (Fin 255) (f_abs closeCharge)), green := 0\<rparr>
         else p1\<lparr>red := 0, green := toUint8 (f_mul (Fin 255) (f_abs closeCharge))\<rparr>)"

definition SetFarCharge :: "float64 \<Rightarrow> Particle \<Rightarrow> Particle" where
  "SetFarCharge farCharge0 p =
     (let farCharge = f_max (Fin 0) (f_min farCharge0 (Fin 1))
      in p\<lparr>FarCharge := farCharge,
            alpha := (toUint8 (f_mul (Fin 207) (f_abs farCharge)) + 48) mod 256\<rparr>)"

definition SetPosition :: "vec \<Rightarrow> Particle \<Rightarrow> Particle" where
  "SetPosition position p = p\<lparr>Position := position\<rparr>"

definition SetVelocity :: "vec \<Rightarrow> Particle \<Rightarrow> Particle" where
  "SetVelocity velocity p = p\<lparr>Velocity := velocity\<rparr>"

definition SetTrackHistory :: "bool \<Rightarrow> Particle \<Rightarrow> Particle" where
  "SetTrackHistory b p = p\<lparr>trackHistory := b\<rparr>"

definition SetHistorySize :: "int \<Rightarrow> Particle \<Rightarrow> Particle" where
  "SetHistorySize n p = p\<lparr>historySize := n\<rparr>"

definition SetPositionHistory :: "vec list \<Rightarrow> Particle \<Rightarrow> Particle" where
  "SetPositionHistory hist p = p\<lparr>positionHistory := hist\<rparr>"

definition initializeWithValues :: "float64 \<Rightarrow> float64 \<Rightarrow> float64 \<Rightarrow> Particle \<Rightarrow> Particle" where
  "initializeWithValues mass closeCharge farCharge p =
     (SetFarCharge farCharge (SetCloseCharge closeCharge (SetMass mass p)))
       \<lparr>positionHistory := [], MergingWith := []\<rparr>"

definition initialize :: "Particle \<Rightarrow> Particle" where
  "initialize p = initializeWithValues (Mass p) (CloseCharge p) (FarCharge p) p"

definition NewParticle :: "float64 \<Rightarrow> float64 \<Rightarrow> float64 \<Rightarrow> float64 \<Rightarrow> float64 \<Rightarrow> Particle" where
  "NewParticle mass closeCharge farCharge x y =
     initializeWithValues mass closeCharge farCharge
       (zeroParticle\<lparr>Position := (x, y), Velocity := vzero\<rparr>)"

definition Clone :: "Particle \<Rightarrow> Particle" where
  "Clone p =
     SetVelocity (Velocity p)
       (NewParticle (Mass p) (CloseCharge p) (FarCharge p) (fst (Position p)) (snd (Position p)))"

text \<open>
  \<^verbatim>\<open>UpdatePosition\<close>: the position before the move is appended to the history, and
  one entry (the oldest, at the head) is dropped when the history is then longer than
  \<^verbatim>\<open>historySize\<close>.
\<close>

definition UpdatePosition :: "Particle \<Rightarrow> Particle" where
  "UpdatePosition p =
     (let p1 = (if trackHistory p
                then (let hist = positionHistory p @ [Position p]
                      in p\<lparr>positionHistory :=
                             (if int (length hist) > historySize p then tl hist else hist)\<rparr>)
                else p)
      in SetPosition (Add (Position p1) (Velocity p1)) p1)"

section \<open>The engine\<close>

record EngineData =
  GravityStrength :: float64
  CloseChargeStrength :: float64
  FarChargeStrength :: float64
  EnvironmentSize :: int
  AllowMerge :: bool
  WallBounce :: bool
  bounceCompleteDistFactor :: float64
  mergeMassRatioThreshold :: float64
  mergeCloseChargeThreshold :: float64
  Particles :: "addr list"
  initialParticles :: "addr list"

text \<open>
  The state of the physics package: the global \<^verbatim>\<open>Engine\<close> and the particles its
  pointers lead to. \<open>nextAddr\<close> is the first address not yet handed out; a new
  particle is stored there.
\<close>

record Sim =
  heap :: "addr \<Rightarrow> Particle"
  nextAddr :: addr
  Engine :: EngineData

definition Initialize :: "EngineData \<Rightarrow> EngineData" where
  "Initialize e =
     e\<lparr>GravityStrength := Fin 15, CloseChargeStrength := Fin 150000000,
       FarChargeStrength := Fin (15 / 2),
       EnvironmentSize := 800, AllowMerge := True, WallBounce := True,
       bounceCompleteDistFactor := Fin (3 / 2), mergeMassRatioThreshold := Fin (5 / 2),
       mergeCloseChargeThreshold := Fin (1 / 4)\<rparr>"

text \<open>Applying a method to every particle of a slice of pointers, in order.\<close>

definition forEach :: "(Particle \<Rightarrow> Particle) \<Rightarrow> addr list \<Rightarrow> (addr \<Rightarrow> Particle) \<Rightarrow> (addr \<Rightarrow> Particle)" where
  "forEach m ps h = fold (\<lambda>p h'. h'(p := m (h' p))) ps h"

definition InitializeParticles :: "Sim \<Rightarrow> Sim" where
  "InitializeParticles w = w\<lparr>heap := forEach initialize (Particles (Engine w)) (heap w)\<rparr>"

text \<open>Cloning a slice of particles: each clone is a new object.\<close>

fun cloneAll :: "addr list \<Rightarrow> (addr \<Rightarrow> Particle) \<Rightarrow> addr \<Rightarrow> addr list \<times> (addr \<Rightarrow> Particle) \<times> addr" where
  "cloneAll [] h n = ([], h, n)"
| "cloneAll (p # ps) h n =
     (case cloneAll ps (h(n := Clone (h p))) (Suc n) of
        (cs, h', n') \<Rightarrow> (n # cs, h', n'))"

definition SaveInitialParticleStates :: "Sim \<Rightarrow> Sim" where
  "SaveInitialParticleStates w =
     (case cloneAll (Particles (Engine w)) (heap w) (nextAddr w) of
        (cs, h', n') \<Rightarrow> w\<lparr>heap := h', nextAddr := n', Engine := (Engine w)\<lparr>initialParticles := cs\<rparr>\<rparr>)"

definition RestoreInitialParticleStates :: "Sim \<Rightarrow> Sim" where
  "RestoreInitialParticleStates w =
     (case cloneAll (initialParticles (Engine w)) (heap w) (nextAddr w) of
        (cs, h', n') \<Rightarrow> w\<lparr>heap := h', nextAddr := n', Engine := (Engine w)\<lparr>Particles := cs\<rparr>\<rparr>)"

definition updateParticlePositions :: "addr list \<Rightarrow> (addr \<Rightarrow> Particle) \<Rightarrow> (addr \<Rightarrow> Particle)" where
  "updateParticlePositions ps h = forEach UpdatePosition ps h"

section \<open>The force step: \<^verbatim>\<open>updateParticleVelocities\<close>\<close>

text \<open>Writing a key into \<^verbatim>\<open>MergingWith\<close>, and \<^verbatim>\<open>delete\<close>.\<close>

definition mapInsert :: "addr \<Rightarrow> addr list \<Rightarrow> addr list" where
  "mapInsert k ks = (if k \<in> set ks then ks else ks @ [k])"

definition mapDelete :: "addr \<Rightarrow> addr list \<Rightarrow> addr list" where
  "mapDelete k ks = removeAll k ks"

text \<open>
  The local \<^verbatim>\<open>massRatio\<close> of a new collision: declared with the zero value, and
  assigned only when merging is allowed.
\<close>

definition massRatioOf :: "EngineData \<Rightarrow> Particle \<Rightarrow> Particle \<Rightarrow> float64" where
  "massRatioOf eng p q =
     (if AllowMerge eng
      then (if f_gt (Mass p) (Mass q) then f_div (Mass p) (Mass q) else f_div (Mass q) (Mass p))
      else Fin 0)"

text \<open>
  The body of the branch for a new collision of \<open>p\<close> with \<open>q\<close>: either the two
  are marked as merging with each other, or \<open>p\<close> bounces. (The other particle is
  \<^verbatim>\<open>o\<close> in the source, a name HOL reserves; it is \<open>q\<close> throughout.)
\<close>

definition collide :: "EngineData \<Rightarrow> addr \<Rightarrow> addr \<Rightarrow> (addr \<Rightarrow> Particle) \<Rightarrow> (addr \<Rightarrow> Particle)" where
  "collide eng p q h =
     (let massRatio = massRatioOf eng (h p) (h q)
      in if AllowMerge eng \<and> f_gt massRatio (mergeMassRatioThreshold eng) \<and>
            (Signbit (CloseCharge (h p)) \<noteq> Signbit (CloseCharge (h q)) \<or>
             f_lt (f_add (f_abs (CloseCharge (h p))) (f_abs (CloseCharge (h q))))
                  (mergeCloseChargeThreshold eng))
         then (let h1 = h(p := (h p)\<lparr>merging := True,
                                     MergingWith := mapInsert q (MergingWith (h p))\<rparr>)
               in if p \<notin> set (MergingWith (h1 q))
                  then h1(q := (h1 q)\<lparr>merging := True,
                                       MergingWith := mapInsert p (MergingWith (h1 q))\<rparr>)
                  else h1)
         else (let n = (if f_gt (f_add (f_abs (fst (Velocity (h p)))) (f_abs (fst (Velocity (h q)))))
                                (f_add (f_abs (snd (Velocity (h p)))) (f_abs (snd (Velocity (h q)))))
                        then (Fin 0, Fin 1) else (Fin 1, Fin 0));
                   scale = Dot (Velocity (h p)) n;
                   h1 = h(p := (h p)\<lparr>bouncing := True, bouncingAgainst := Some q\<rparr>);
                   scale2 = f_mul scale (Fin 2);
                   n2 = Scale n scale2
               in h1(p := SetVelocity (Subtract (Velocity (h1 p)) n2) (h1 p))))"

text \<open>
  The state of the inner loop over \<open>q\<close> for a fixed \<open>p\<close>: the heap, the three
  acceleration sums and the count \<^verbatim>\<open>ct\<close> of particles that contributed to them.
\<close>

record forceLoop =
  lheap :: "addr \<Rightarrow> Particle"
  gAcc :: vec
  cAcc :: vec
  fAcc :: vec
  ct :: nat

definition accumulate :: "EngineData \<Rightarrow> Particle \<Rightarrow> Particle \<Rightarrow> vec \<Rightarrow> float64 \<Rightarrow> forceLoop \<Rightarrow> forceLoop" where
  "accumulate eng p q v mag s =
     (let vg = Scale v (f_div (f_mul (f_mul (GravityStrength eng) (Mass q)) (Fin (- 1)))
                              (f_pow mag 3));
          vc = Scale v (f_div (f_mul (f_mul (CloseChargeStrength eng) (CloseCharge p)) (CloseCharge q))
                              (f_mul (Mass p) (f_pow mag 4)));
          vf = Scale v (f_div (f_mul (f_mul (f_mul (FarChargeStrength eng) (FarCharge p)) (FarCharge q))
                                     (Fin (- 1)))
                              (Mass p))
      in s\<lparr>ct := ct s + 1, gAcc := Add (gAcc s) vg, cAcc := Add (cAcc s) vc,
            fAcc := Add (fAcc s) vf\<rparr>)"

definition pairStep :: "EngineData \<Rightarrow> addr \<Rightarrow> addr \<Rightarrow> forceLoop \<Rightarrow> forceLoop" where
  "pairStep eng p q s =
     (let h = lheap s
      in if q \<in> set (MergingWith (h p)) \<or> p = q then s
         else (let v = Subtract (Position (h p)) (Position (h q));
                   mag = Magnitude v
               in if bouncing (h p) \<and> bouncingAgainst (h p) = Some q
                  then (if f_gt mag (f_mul (bounceCompleteDistFactor eng)
                                           (ofInt (Radius (h p) + Radius (h q))))
                        then s\<lparr>lheap := h(p := (h p)\<lparr>bouncing := False\<rparr>)\<rparr>
                        else s)
                  else if \<not> (bouncing (h p) \<and> bouncingAgainst (h p) = Some q) \<and>
                          f_lt mag (ofInt (Radius (h p) + Radius (h q)))
                  then s\<lparr>lheap := collide eng p q h\<rparr>
                  else accumulate eng (h p) (h q) v mag s))"

text \<open>
  One round of the outer loop: the sums are divided by \<^verbatim>\<open>float64(ct)\<close> and added to
  the velocity of \<open>p\<close>. The source divides without looking at \<^verbatim>\<open>ct\<close>.
\<close>

definition particleStep :: "EngineData \<Rightarrow> addr list \<Rightarrow> addr \<Rightarrow> (addr \<Rightarrow> Particle) \<Rightarrow> (addr \<Rightarrow> Particle)" where
  "particleStep eng ps p h =
     (let s = fold (pairStep eng p) ps
                \<lparr>lheap = h, gAcc = vzero, cAcc = vzero, fAcc = vzero, ct = 0\<rparr>;
          k = f_div (Fin 1) (ofInt (int (ct s)));
          g = Scale (gAcc s) k;
          c = Scale (cAcc s) k;
          f = Scale (fAcc s) k;
          h1 = lheap s
      in h1(p := SetVelocity (Add (Add (Add (Velocity (h1 p)) g) c) f) (h1 p)))"

definition updateParticleVelocities :: "EngineData \<Rightarrow> addr list \<Rightarrow> (addr \<Rightarrow> Particle) \<Rightarrow> (addr \<Rightarrow> Particle)" where
  "updateParticleVelocities eng ps h = fold (particleStep eng ps) ps h"

section \<open>The tick: \<^verbatim>\<open>UpdateParticles\<close>\<close>

subsection \<open>Merge aggregation\<close>

record aggregate =
  aheap :: "addr \<Rightarrow> Particle"
  amass :: float64
  acloseCharge :: float64
  afarCharge :: float64
  aposition :: vec
  avelocity :: vec

text \<open>The loop over the partners \<open>q\<close> of a cluster root \<open>p\<close>.\<close>

definition absorb :: "addr \<Rightarrow> addr \<Rightarrow> aggregate \<Rightarrow> aggregate" where
  "absorb p q a =
     (let h = aheap a
      in \<lparr>aheap = h(q := (h q)\<lparr>MergingWith := mapDelete p (MergingWith (h q))\<rparr>),
          amass = f_add (amass a) (Mass (h q)),
          acloseCharge = f_add (acloseCharge a) (f_mul (CloseCharge (h q)) (Mass (h q))),
          afarCharge = f_add (afarCharge a) (f_mul (FarCharge (h q)) (Mass (h q))),
          aposition = Add (aposition a) (Scale (Position (h q)) (Mass (h q))),
          avelocity = Add (avelocity a)
                          (Scale (Velocity (h q)) (f_div (Mass (h q)) (Mass (h p))))\<rparr>)"

definition aggregateCluster :: "addr \<Rightarrow> (addr \<Rightarrow> Particle) \<Rightarrow> aggregate" where
  "aggregateCluster p h =
     fold (absorb p) (MergingWith (h p))
       \<lparr>aheap = h, amass = Mass (h p),
        acloseCharge = f_mul (CloseCharge (h p)) (Mass (h p)),
        afarCharge = f_mul (FarCharge (h p)) (Mass (h p)),
        aposition = Scale (Position (h p)) (Mass (h p)),
        avelocity = Velocity (h p)\<rparr>"

text \<open>The particle built from the sums of a cluster with root \<open>p\<close>.\<close>

definition mergedParticle :: "addr \<Rightarrow> (addr \<Rightarrow> Particle) \<Rightarrow> Particle" where
  "mergedParticle p h =
     (let a = aggregateCluster p h;
          position = Scale (aposition a) (f_div (Fin 1) (amass a));
          root = aheap a p
      in SetPositionHistory (positionHistory root)
           (SetHistorySize (historySize root)
             (SetTrackHistory (trackHistory root)
               (SetVelocity (avelocity a)
                 (NewParticle (amass a) (f_div (acloseCharge a) (amass a))
                    (f_div (afarCharge a) (amass a)) (fst position) (snd position))))))"

record mergeLoop =
  mheap :: "addr \<Rightarrow> Particle"
  mnext :: addr
  deleteList :: "nat list"
  addList :: "addr list"
  mergeOccurred :: bool
  mergeMultiple :: bool
  mergeSource :: "addr option"
  mergedResult :: "addr option"

definition mergeStep :: "nat \<times> addr \<Rightarrow> mergeLoop \<Rightarrow> mergeLoop" where
  "mergeStep ip m =
     (let i = fst ip; p = snd ip; h = mheap m
      in if merging (h p)
         then (let count = length (MergingWith (h p))
               in if count > 0
                  then m\<lparr>mergeOccurred := True, mergeSource := Some p,
                         mergeMultiple := (if count > 1 then True else mergeMultiple m),
                         deleteList := deleteList m @ [i],
                         mheap := (aheap (aggregateCluster p h)) (mnext m := mergedParticle p h),
                         mnext := Suc (mnext m),
                         addList := addList m @ [mnext m],
                         mergedResult := Some (mnext m)\<rparr>
                  else m\<lparr>mheap := h(p := (h p)\<lparr>merging := False\<rparr>),
                         deleteList := deleteList m @ [i]\<rparr>)
         else m)"

text \<open>
  Removal of the listed indices, each by moving the last element into its place and
  cutting the slice by one. An index outside the slice is a run-time panic: \<open>None\<close>.
\<close>

fun removeIndices :: "nat list \<Rightarrow> addr list \<Rightarrow> addr list option" where
  "removeIndices [] ps = Some ps"
| "removeIndices (i # js) ps =
     (if i < length ps then removeIndices js (butlast (ps[i := last ps])) else None)"

text \<open>
  The indices are sorted in decreasing order before the removal. They are pairwise
  different, so the order that \<^verbatim>\<open>sort.Slice\<close> leaves is the only decreasing one.
\<close>

definition sortDecreasing :: "nat list \<Rightarrow> nat list" where
  "sortDecreasing ds = rev (sort ds)"

subsection \<open>Wall bounce\<close>

definition outside :: "EngineData \<Rightarrow> Particle \<Rightarrow> float64 \<Rightarrow> bool" where
  "outside eng p x =
     (toInt x - Radius p < 0 \<or> toInt x + Radius p > EnvironmentSize eng - 1)"

definition clampInside :: "EngineData \<Rightarrow> Particle \<Rightarrow> float64 \<Rightarrow> float64" where
  "clampInside eng p x =
     f_max (ofInt (Radius p))
       (f_min x (f_sub (f_sub (ofInt (EnvironmentSize eng)) (ofInt (Radius p))) (Fin 1)))"

definition wallStep :: "EngineData \<Rightarrow> Particle \<Rightarrow> Particle" where
  "wallStep eng p =
     (if outside eng p (fst (Position p))
      then (let n = (Fin 1, Fin 0);
                scale = Dot (Velocity p) n;
                p1 = p\<lparr>Position := (clampInside eng p (fst (Position p)), snd (Position p))\<rparr>
            in SetVelocity (Subtract (Velocity p1) (Scale n (f_mul scale (Fin 2)))) p1)
      else if outside eng p (snd (Position p))
      then (let n = (Fin 0, Fin 1);
                scale = Dot (Velocity p) n;
                p1 = p\<lparr>Position := (fst (Position p), clampInside eng p (snd (Position p)))\<rparr>
            in SetVelocity (Subtract (Velocity p1) (Scale n (f_mul scale (Fin 2)))) p1)
      else p)"

subsection \<open>The whole tick\<close>

text \<open>
  \<^verbatim>\<open>sort.Slice\<close> belongs to the Go library, which promises a slice ordered by the
  given \<^verbatim>\<open>less\<close> and holding the same elements, and no more. The tick takes the
  sorting function as the parameter \<open>srt\<close>; \<open>massGreater\<close> is the \<^verbatim>\<open>less\<close> of the
  source, on the particles at two positions of the roster.
\<close>

definition massGreater :: "(addr \<Rightarrow> Particle) \<Rightarrow> addr \<Rightarrow> addr \<Rightarrow> bool" where
  "massGreater h a b = f_gt (Mass (h a)) (Mass (h b))"

definition noMerge :: "(addr \<Rightarrow> Particle) \<Rightarrow> addr \<Rightarrow> mergeLoop" where
  "noMerge h n =
     \<lparr>mheap = h, mnext = n, deleteList = [], addList = [],
      mergeOccurred = False, mergeMultiple = False, mergeSource = None, mergedResult = None\<rparr>"

definition mergeAll :: "addr list \<Rightarrow> (addr \<Rightarrow> Particle) \<Rightarrow> addr \<Rightarrow> mergeLoop" where
  "mergeAll ps h n = fold mergeStep (enumerate 0 ps) (noMerge h n)"

text \<open>
  The region \<^verbatim>\<open>Handle Mergers\<close>: the loop over the sorted roster, the removal of
  the particles on the delete list and the appending of the new ones. It yields the
  final loop state and the new roster.
\<close>

definition handleMergers :: "EngineData \<Rightarrow> addr list \<Rightarrow> (addr \<Rightarrow> Particle) \<Rightarrow> addr \<Rightarrow> (mergeLoop \<times> addr list) option" where
  "handleMergers eng ps h n =
     (if AllowMerge eng
      then (let m = mergeAll ps h n
            in map_option (\<lambda>ps'. (m, ps' @ addList m))
                 (removeIndices (sortDecreasing (deleteList m)) ps))
      else Some (noMerge h n, ps))"

type_synonym mergeSummary = "bool \<times> bool \<times> addr option \<times> addr option"

type_synonym sorter = "(addr \<Rightarrow> addr \<Rightarrow> bool) \<Rightarrow> addr list \<Rightarrow> addr list"

text \<open>The tick up to and including the mergers.\<close>

definition beforeWalls :: "sorter \<Rightarrow> Sim \<Rightarrow> (mergeSummary \<times> Sim) option" where
  "beforeWalls srt w =
     (let eng = Engine w;
          h1 = updateParticleVelocities eng (Particles eng) (heap w);
          h2 = updateParticlePositions (Particles eng) h1;
          ps1 = srt (massGreater h2) (Particles eng)
      in map_option
           (\<lambda>r. (let m = fst r; ps2 = snd r
                 in ((mergeOccurred m, mergeMultiple m, mergeSource m, mergedResult m),
                     w\<lparr>heap := mheap m, nextAddr := mnext m,
                       Engine := eng\<lparr>Particles := ps2\<rparr>\<rparr>)))
           (handleMergers eng ps1 h2 (nextAddr w)))"

text \<open>The region \<^verbatim>\<open>Wall bounce\<close>.\<close>

definition wallBounceAll :: "Sim \<Rightarrow> Sim" where
  "wallBounceAll w =
     (if WallBounce (Engine w)
      then w\<lparr>heap := forEach (wallStep (Engine w)) (Particles (Engine w)) (heap w)\<rparr>
      else w)"

definition UpdateParticles :: "sorter \<Rightarrow> Sim \<Rightarrow> (mergeSummary \<times> Sim) option" where
  "UpdateParticles srt w =
     map_option (\<lambda>r. (fst r, wallBounceAll (snd r))) (beforeWalls srt w)"

section \<open>The application: state and event handlers\<close>

text \<open>
  The state of package \<^verbatim>\<open>main\<close>: the \<^verbatim>\<open>state.Data\<close> behind \<^verbatim>\<open>State\<close>, whose
  \<^verbatim>\<open>PhysicsEngine\<close> points to \<^verbatim>\<open>physics.Engine\<close> (here inside \<open>sim\<close>), and
  \<^verbatim>\<open>paused\<close>. Calls that only drive the display are left out. A handler that can end
  in a run-time panic returns an option.
\<close>

record App =
  sim :: Sim
  NumberOfParticles :: int
  AverageMass :: int
  HistoryTrail :: bool
  HistoryLength :: int
  PhysicsLoopSpeed :: int
  paused :: bool

definition roster :: "App \<Rightarrow> addr list" where
  "roster a = Particles (Engine (sim a))"

definition particleAt :: "App \<Rightarrow> addr \<Rightarrow> Particle" where
  "particleAt a p = heap (sim a) p"

definition setEngine :: "(EngineData \<Rightarrow> EngineData) \<Rightarrow> App \<Rightarrow> App" where
  "setEngine f a = a\<lparr>sim := (sim a)\<lparr>Engine := f (Engine (sim a))\<rparr>\<rparr>"

definition setHeap :: "(addr \<Rightarrow> Particle) \<Rightarrow> App \<Rightarrow> App" where
  "setHeap h a = a\<lparr>sim := (sim a)\<lparr>heap := h\<rparr>\<rparr>"

definition HistoryTrailChangedEvent :: "bool \<Rightarrow> App \<Rightarrow> App" where
  "HistoryTrailChangedEvent checked a =
     (let a1 = a\<lparr>HistoryTrail := checked\<rparr>
      in setHeap (forEach (\<lambda>p. SetHistorySize (HistoryLength a1) (SetTrackHistory checked p))
                    (roster a1) (heap (sim a1))) a1)"

text \<open>
  The slice expression \<^verbatim>\<open>h[len(h)-value:]\<close> keeps the last \<^verbatim>\<open>value\<close> entries; with
  a negative \<^verbatim>\<open>value\<close> its lower bound lies beyond the length and Go panics.
\<close>

definition truncateHistory :: "int \<Rightarrow> Particle \<Rightarrow> Particle option" where
  "truncateHistory v p =
     (let hist = positionHistory p
      in if int (length hist) > v
         then (if v < 0 then None
               else Some (SetHistorySize v
                      (SetPositionHistory (drop (length hist - nat v) hist) p)))
         else Some (SetHistorySize v p))"

fun forEachOpt :: "(Particle \<Rightarrow> Particle option) \<Rightarrow> addr list \<Rightarrow> (addr \<Rightarrow> Particle) \<Rightarrow> (addr \<Rightarrow> Particle) option" where
  "forEachOpt m [] h = Some h"
| "forEachOpt m (p # ps) h =
     (case m (h p) of None \<Rightarrow> None | Some p' \<Rightarrow> forEachOpt m ps (h(p := p')))"

definition HistoryTrailLengthChangedEvent :: "int \<Rightarrow> App \<Rightarrow> App option" where
  "HistoryTrailLengthChangedEvent v a =
     (let a1 = a\<lparr>HistoryLength := v\<rparr>
      in map_option (\<lambda>h. setHeap h a1)
           (forEachOpt (truncateHistory v) (roster a1) (heap (sim a1))))"

text \<open>
  \<^verbatim>\<open>GenerateParticles\<close> draws five random numbers for each particle: a normal one for
  the mass, and uniform ones in \<open>[0, 1)\<close> for the two charges and the coordinates. The
  draws are the parameter \<open>rnd\<close>. \<^verbatim>\<open>make\<close> with a negative length panics.
\<close>

record draws =
  normal :: float64
  uClose :: float64
  uFar :: float64
  uX :: float64
  uY :: float64

definition randomParticle :: "App \<Rightarrow> draws \<Rightarrow> Particle" where
  "randomParticle a d =
     (let avg = ofInt (AverageMass a);
          size = ofInt (EnvironmentSize (Engine (sim a)));
          m = f_min (f_max (f_add (f_mul (f_mul (normal d) (Fin (11 / 20))) avg) avg)
                           (f_max (Fin 4) (f_mul (Fin (1 / 5)) avg)))
                    (f_mul (Fin (7 / 4)) avg);
          cc = f_sub (f_mul (uClose d) (Fin 2)) (Fin 1);
          fc = uFar d;
          x = f_mul (uX d) size;
          y = f_mul (uY d) size
      in NewParticle m cc fc x y)"

fun allocAll :: "Particle list \<Rightarrow> (addr \<Rightarrow> Particle) \<Rightarrow> addr \<Rightarrow> addr list \<times> (addr \<Rightarrow> Particle) \<times> addr" where
  "allocAll [] h n = ([], h, n)"
| "allocAll (x # xs) h n =
     (case allocAll xs (h(n := x)) (Suc n) of (cs, h', n') \<Rightarrow> (n # cs, h', n'))"

definition setRoster :: "Particle list \<Rightarrow> App \<Rightarrow> App" where
  "setRoster xs a =
     (case allocAll xs (heap (sim a)) (nextAddr (sim a)) of
        (cs, h', n') \<Rightarrow>
          a\<lparr>sim := (sim a)\<lparr>heap := h', nextAddr := n',
                             Engine := (Engine (sim a))\<lparr>Particles := cs\<rparr>\<rparr>\<rparr>)"

definition GenerateParticles :: "(nat \<Rightarrow> draws) \<Rightarrow> App \<Rightarrow> App option" where
  "GenerateParticles rnd a =
     (if NumberOfParticles a < 0 then None
      else (let a1 = setRoster (map (\<lambda>i. randomParticle a (rnd i))
                                   [0..<nat (NumberOfParticles a)]) a;
                a2 = HistoryTrailChangedEvent (HistoryTrail a1) a1
            in map_option (\<lambda>a3. a3\<lparr>sim := SaveInitialParticleStates (sim a3)\<rparr>)
                 (HistoryTrailLengthChangedEvent (HistoryLength a2) a2)))"

definition EnvironmentSizeChangedEvent :: "(nat \<Rightarrow> draws) \<Rightarrow> int \<Rightarrow> App \<Rightarrow> App option" where
  "EnvironmentSizeChangedEvent rnd v a =
     (let a1 = setEngine (\<lambda>e. e\<lparr>EnvironmentSize := v\<rparr>) a
      in if paused a1 then GenerateParticles rnd a1 else Some a1)"

definition NumParticlesChangedEvent :: "(nat \<Rightarrow> draws) \<Rightarrow> int \<Rightarrow> App \<Rightarrow> App option" where
  "NumParticlesChangedEvent rnd v a =
     (let a1 = a\<lparr>NumberOfParticles := v\<rparr>
      in if paused a1 then GenerateParticles rnd a1 else Some a1)"

definition AverageMassChangedEvent :: "(nat \<Rightarrow> draws) \<Rightarrow> int \<Rightarrow> App \<Rightarrow> App option" where
  "AverageMassChangedEvent rnd v a =
     (let a1 = a\<lparr>AverageMass := v\<rparr>
      in if paused a1 then GenerateParticles rnd a1 else Some a1)"

definition RegenParticlesEvent :: "(nat \<Rightarrow> draws) \<Rightarrow> App \<Rightarrow> App option" where
  "RegenParticlesEvent rnd a = GenerateParticles rnd a"

definition GravityStrengthChangedEvent :: "float64 \<Rightarrow> App \<Rightarrow> App" where
  "GravityStrengthChangedEvent v a = setEngine (\<lambda>e. e\<lparr>GravityStrength := v\<rparr>) a"

definition CloseChargeStrengthChangedEvent :: "float64 \<Rightarrow> App \<Rightarrow> App" where
  "CloseChargeStrengthChangedEvent v a = setEngine (\<lambda>e. e\<lparr>CloseChargeStrength := v\<rparr>) a"

definition FarChargeStrengthChangedEvent :: "float64 \<Rightarrow> App \<Rightarrow> App" where
  "FarChargeStrengthChangedEvent v a = setEngine (\<lambda>e. e\<lparr>FarChargeStrength := v\<rparr>) a"

definition AllowMergeChangedEvent :: "bool \<Rightarrow> App \<Rightarrow> App" where
  "AllowMergeChangedEvent checked a = setEngine (\<lambda>e. e\<lparr>AllowMerge := checked\<rparr>) a"

definition WallBounceChangedEvent :: "bool \<Rightarrow> App \<Rightarrow> App" where
  "WallBounceChangedEvent checked a = setEngine (\<lambda>e. e\<lparr>WallBounce := checked\<rparr>) a"

definition PhysicsLoopSpeedChangedEvent :: "int \<Rightarrow> App \<Rightarrow> App" where
  "PhysicsLoopSpeedChangedEvent v a = a\<lparr>PhysicsLoopSpeed := v\<rparr>"

definition PauseResumeEvent :: "App \<Rightarrow> App" where
  "PauseResumeEvent a = a\<lparr>paused := \<not> paused a\<rparr>"

definition ResetEnvironmentEvent :: "App \<Rightarrow> App option" where
  "ResetEnvironmentEvent a =
     (let a1 = a\<lparr>sim := RestoreInitialParticleStates (sim a)\<rparr>;
          hold = HistoryLength a1
      in map_option (\<lambda>a2. (let a3 = a2\<lparr>HistoryLength := hold\<rparr>
                            in HistoryTrailChangedEvent (HistoryTrail a3) a3))
           (HistoryTrailLengthChangedEvent 0 a1))"

text \<open>One round of \<^verbatim>\<open>physicsLoop\<close>: the tick on the engine.\<close>

definition physicsTick :: "sorter \<Rightarrow> App \<Rightarrow> App option" where
  "physicsTick srt a = map_option (\<lambda>r. a\<lparr>sim := snd r\<rparr>) (UpdateParticles srt (sim a))"

text \<open>
  \<^verbatim>\<open>LoadStateEvent\<close>. The parameter is what the JSON decoder returns for the file:
  \<open>None\<close> when the file cannot be opened or decoded, which leaves the state as it
  was. The decoder fills the exported fields that carry a \<^verbatim>\<open>json\<close> tag and leaves
  every other field at its zero value, so the engine that \<^verbatim>\<open>physics.Engine =
  *data.PhysicsEngine\<close> copies has the three unexported tuning constants at zero.
\<close>

record savedParticle =
  sMass :: float64
  sCloseCharge :: float64
  sFarCharge :: float64
  sPosition :: vec
  sVelocity :: vec

record savedData =
  fGravityStrength :: float64
  fCloseChargeStrength :: float64
  fFarChargeStrength :: float64
  fEnvironmentSize :: int
  fAllowMerge :: bool
  fWallBounce :: bool
  fParticles :: "savedParticle list"
  fNumberOfParticles :: int
  fAverageMass :: int
  fHistoryTrail :: bool
  fHistoryLength :: int
  fPhysicsLoopSpeed :: int

definition decodedParticle :: "savedParticle \<Rightarrow> Particle" where
  "decodedParticle s =
     zeroParticle\<lparr>Mass := sMass s, CloseCharge := sCloseCharge s, FarCharge := sFarCharge s,
                  Position := sPosition s, Velocity := sVelocity s\<rparr>"

definition decodedEngine :: "savedData \<Rightarrow> EngineData" where
  "decodedEngine d =
     \<lparr>GravityStrength = fGravityStrength d, CloseChargeStrength = fCloseChargeStrength d,
      FarChargeStrength = fFarChargeStrength d, EnvironmentSize = fEnvironmentSize d,
      AllowMerge = fAllowMerge d, WallBounce = fWallBounce d,
      bounceCompleteDistFactor = Fin 0, mergeMassRatioThreshold = Fin 0,
      mergeCloseChargeThreshold = Fin 0, Particles = [], initialParticles = []\<rparr>"

definition LoadStateEvent :: "savedData option \<Rightarrow> App \<Rightarrow> App option" where
  "LoadStateEvent file a =
     (case file of
        None \<Rightarrow> Some a
      | Some d \<Rightarrow>
          (let a1 = a\<lparr>NumberOfParticles := fNumberOfParticles d, AverageMass := fAverageMass d,
                      HistoryTrail := fHistoryTrail d, HistoryLength := fHistoryLength d,
                      PhysicsLoopSpeed := fPhysicsLoopSpeed d\<rparr>;
               a2 = setRoster (map decodedParticle (fParticles d))
                      (setEngine (\<lambda>_. decodedEngine d) a1);
               a3 = a2\<lparr>sim := SaveInitialParticleStates (InitializeParticles (sim a2))\<rparr>;
               a4 = HistoryTrailChangedEvent (fHistoryTrail d) a3
           in HistoryTrailLengthChangedEvent (fHistoryLength d) a4))"

text \<open>The state in which \<^verbatim>\<open>main\<close> calls \<^verbatim>\<open>GenerateParticles\<close> for the first time.\<close>

definition zeroEngine :: EngineData where
  "zeroEngine =
     \<lparr>GravityStrength = Fin 0, CloseChargeStrength = Fin 0, FarChargeStrength = Fin 0,
      EnvironmentSize = 0, AllowMerge = False, WallBounce = False,
      bounceCompleteDistFactor = Fin 0, mergeMassRatioThreshold = Fin 0,
      mergeCloseChargeThreshold = Fin 0, Particles = [], initialParticles = []\<rparr>"

definition mainState :: App where
  "mainState =
     \<lparr>sim = \<lparr>heap = (\<lambda>_. zeroParticle), nextAddr = 0,
             Engine = (Initialize zeroEngine)
               \<lparr>GravityStrength := Fin 15, CloseChargeStrength := Fin 150000000,
                FarChargeStrength := Fin (15 / 2), EnvironmentSize := 800\<rparr>\<rparr>,
      NumberOfParticles = 50, AverageMass = 250, HistoryTrail = True, HistoryLength = 15,
      PhysicsLoopSpeed = 75, paused = True\<rparr>"

section \<open>Notions used by the statements\<close>

subsection \<open>Clones\<close>

text \<open>The state of a particle that has no history, tracks none, and takes part in no
  collision.\<close>

definition freshState :: "Particle \<Rightarrow> bool" where
  "freshState p \<longleftrightarrow>
     positionHistory p = [] \<and> \<not> trackHistory p \<and> historySize p = 0 \<and>
     MergingWith p = [] \<and> \<not> merging p \<and> \<not> bouncing p \<and> bouncingAgainst p = None"

definition sameCore :: "Particle \<Rightarrow> Particle \<Rightarrow> bool" where
  "sameCore p p' \<longleftrightarrow>
     Mass p = Mass p' \<and> CloseCharge p = CloseCharge p' \<and> FarCharge p = FarCharge p' \<and>
     Position p = Position p' \<and> Velocity p = Velocity p'"

subsection \<open>Collisions\<close>

text \<open>
  The pair \<open>(p, q)\<close> is a new collision: the inner loop reaches its collision
  branch, that is, \<open>q\<close> is another particle, not yet merging with \<open>p\<close>, \<open>p\<close> is not
  bouncing against it, and their distance is less than the sum of their radii.
\<close>

definition firstContact :: "(addr \<Rightarrow> Particle) \<Rightarrow> addr \<Rightarrow> addr \<Rightarrow> bool" where
  "firstContact h p q \<longleftrightarrow>
     p \<noteq> q \<and> q \<notin> set (MergingWith (h p)) \<and>
     \<not> (bouncing (h p) \<and> bouncingAgainst (h p) = Some q) \<and>
     f_lt (Magnitude (Subtract (Position (h p)) (Position (h q))))
          (ofInt (Radius (h p) + Radius (h q)))"

text \<open>
  The condition for a merge in the words of the specification: merging is allowed, the
  greater mass divided by the lesser exceeds the threshold, and the close charges have
  different signs or their absolute values add up to less than the charge threshold.
  The sign of a charge is that of \<^verbatim>\<open>math.Signbit\<close>: negative or not.
\<close>

definition mergeCondition :: "EngineData \<Rightarrow> Particle \<Rightarrow> Particle \<Rightarrow> bool" where
  "mergeCondition eng p q \<longleftrightarrow>
     AllowMerge eng \<and>
     f_gt (f_div (f_max (Mass p) (Mass q)) (f_min (Mass p) (Mass q)))
          (mergeMassRatioThreshold eng) \<and>
     (Signbit (CloseCharge p) \<noteq> Signbit (CloseCharge q) \<or>
      f_lt (f_add (f_abs (CloseCharge p)) (f_abs (CloseCharge q)))
           (mergeCloseChargeThreshold eng))"

text \<open>The two outcomes, from the heap \<open>h\<close> before to the heap \<open>h'\<close> after.\<close>

definition mergedPair :: "(addr \<Rightarrow> Particle) \<Rightarrow> (addr \<Rightarrow> Particle) \<Rightarrow> addr \<Rightarrow> addr \<Rightarrow> bool" where
  "mergedPair h h' p q \<longleftrightarrow>
     merging (h' p) \<and> merging (h' q) \<and>
     set (MergingWith (h' p)) = insert q (set (MergingWith (h p))) \<and>
     set (MergingWith (h' q)) = insert p (set (MergingWith (h q))) \<and>
     bouncing (h' p) = bouncing (h p) \<and> bouncingAgainst (h' p) = bouncingAgainst (h p) \<and>
     Velocity (h' p) = Velocity (h p)"

definition bounceNormal :: "vec \<Rightarrow> vec \<Rightarrow> vec" where
  "bounceNormal vp vq =
     (if f_gt (f_add (f_abs (fst vp)) (f_abs (fst vq))) (f_add (f_abs (snd vp)) (f_abs (snd vq)))
      then (Fin 0, Fin 1) else (Fin 1, Fin 0))"

definition reflectAcross :: "vec \<Rightarrow> vec \<Rightarrow> vec" where
  "reflectAcross v n = Subtract v (Scale n (f_mul (Dot v n) (Fin 2)))"

definition bouncedOff :: "(addr \<Rightarrow> Particle) \<Rightarrow> (addr \<Rightarrow> Particle) \<Rightarrow> addr \<Rightarrow> addr \<Rightarrow> bool" where
  "bouncedOff h h' p q \<longleftrightarrow>
     bouncing (h' p) \<and> bouncingAgainst (h' p) = Some q \<and>
     Velocity (h' p) =
       reflectAcross (Velocity (h p)) (bounceNormal (Velocity (h p)) (Velocity (h q))) \<and>
     merging (h' p) = merging (h p) \<and> MergingWith (h' p) = MergingWith (h p) \<and>
     h' q = h q"

definition startLoop :: "(addr \<Rightarrow> Particle) \<Rightarrow> forceLoop" where
  "startLoop h = \<lparr>lheap = h, gAcc = vzero, cAcc = vzero, fAcc = vzero, ct = 0\<rparr>"

subsection \<open>Merge aggregation\<close>

text \<open>
  The participants of the cluster with root \<open>p\<close>, their total mass, and the mean of
  a charge weighted by mass, as real numbers.
\<close>

definition participants :: "(addr \<Rightarrow> Particle) \<Rightarrow> addr \<Rightarrow> addr list" where
  "participants h p = p # MergingWith (h p)"

definition totalMass :: "(addr \<Rightarrow> Particle) \<Rightarrow> addr \<Rightarrow> real" where
  "totalMass h p = (\<Sum>x\<leftarrow>participants h p. val (Mass (h x)))"

definition weightedMean :: "(Particle \<Rightarrow> float64) \<Rightarrow> (addr \<Rightarrow> Particle) \<Rightarrow> addr \<Rightarrow> real" where
  "weightedMean charge h p =
     (\<Sum>x\<leftarrow>participants h p. val (charge (h x)) * val (Mass (h x))) / totalMass h p"

text \<open>The data model's ranges: a finite positive mass, charges within their clamps.\<close>

definition legalParticle :: "Particle \<Rightarrow> bool" where
  "legalParticle p \<longleftrightarrow>
     isFin (Mass p) \<and> 0 < val (Mass p) \<and>
     isFin (CloseCharge p) \<and> - 1 \<le> val (CloseCharge p) \<and> val (CloseCharge p) \<le> 1 \<and>
     isFin (FarCharge p) \<and> 0 \<le> val (FarCharge p) \<and> val (FarCharge p) \<le> 1"

subsection \<open>Sorting\<close>

text \<open>
  What the Go library promises of \<^verbatim>\<open>sort.Slice(xs, lt)\<close>: the slice holds the
  same elements afterwards, and no element is \<^verbatim>\<open>less\<close> than one before it. It
  adds that the sort is not guaranteed to be stable.
\<close>

definition sortSliceContract :: "(addr \<Rightarrow> addr \<Rightarrow> bool) \<Rightarrow> addr list \<Rightarrow> addr list \<Rightarrow> bool" where
  "sortSliceContract lt xs ys \<longleftrightarrow>
     mset ys = mset xs \<and> sorted_wrt (\<lambda>a b. \<not> lt b a) ys"

text \<open>Stability: the elements that \<^verbatim>\<open>less\<close> does not tell apart from a given one keep
  their order.\<close>

definition keepsEqualsInOrder :: "(addr \<Rightarrow> addr \<Rightarrow> bool) \<Rightarrow> addr list \<Rightarrow> addr list \<Rightarrow> bool" where
  "keepsEqualsInOrder lt xs ys \<longleftrightarrow>
     (\<forall>a \<in> set xs. filter (\<lambda>b. \<not> lt a b \<and> \<not> lt b a) ys =
                    filter (\<lambda>b. \<not> lt a b \<and> \<not> lt b a) xs)"

text \<open>Go's \<^verbatim>\<open>>=\<close> on floats.\<close>

definition f_ge :: "float64 \<Rightarrow> float64 \<Rightarrow> bool" where
  "f_ge x y \<longleftrightarrow> \<not> isNaN x \<and> \<not> isNaN y \<and> \<not> f_lt x y"

text \<open>
  The statements about a whole tick hold for every sorting function that returns the
  elements it was given. An insertion sort is one; the examples use it.
\<close>

definition permutes :: "sorter \<Rightarrow> bool" where
  "permutes srt \<longleftrightarrow> (\<forall>lt xs. mset (srt lt xs) = mset xs)"

fun insertBy :: "(addr \<Rightarrow> addr \<Rightarrow> bool) \<Rightarrow> addr \<Rightarrow> addr list \<Rightarrow> addr list" where
  "insertBy lt x [] = [x]"
| "insertBy lt x (y # ys) = (if lt x y then x # y # ys else y # insertBy lt x ys)"

definition insertionSort :: sorter where
  "insertionSort lt xs = foldr (insertBy lt) xs []"

subsection \<open>Configuration\<close>

definition noDraws :: "nat \<Rightarrow> draws" where
  "noDraws i = \<lparr>normal = Fin 0, uClose = Fin 0, uFar = Fin 0, uX = Fin 0, uY = Fin 0\<rparr>"

definition environmentSizeAfter :: "App option \<Rightarrow> int option" where
  "environmentSizeAfter r = map_option (\<lambda>a. EnvironmentSize (Engine (sim a))) r"

subsection \<open>Example states\<close>

text \<open>
  Two particles in contact, the first nine times as heavy as the second and of the
  opposite close charge, in the middle of a simulation: with a history, the first
  bouncing against the second.
\<close>

definition heavy :: Particle where
  "heavy =
     (NewParticle (Fin 36) (Fin (1 / 2)) (Fin (1 / 2)) (Fin 10) (Fin 10))
       \<lparr>Velocity := (Fin 1, Fin 0), trackHistory := True, historySize := 3,
        positionHistory := [(Fin 8, Fin 10), (Fin 9, Fin 10)],
        bouncing := True, bouncingAgainst := Some 1\<rparr>"

definition light :: Particle where
  "light =
     (NewParticle (Fin 4) (Fin (- 1 / 2)) (Fin (1 / 4)) (Fin 11) (Fin 10))
       \<lparr>Velocity := (Fin 0, Fin 1), trackHistory := True, historySize := 3,
        positionHistory := [(Fin 11, Fin 9)]\<rparr>"

definition twoHeap :: "addr \<Rightarrow> Particle" where
  "twoHeap = (\<lambda>_. zeroParticle)(0 := heavy, 1 := light)"

definition snapshotSim :: Sim where
  "snapshotSim =
     \<lparr>heap = twoHeap, nextAddr = 2,
      Engine = (Initialize zeroEngine)\<lparr>Particles := [], initialParticles := [0, 1]\<rparr>\<rparr>"

text \<open>The same two particles after the force step has found them merging.\<close>

definition mergingHeap :: "addr \<Rightarrow> Particle" where
  "mergingHeap =
     twoHeap(0 := heavy\<lparr>merging := True, MergingWith := [1]\<rparr>,
             1 := light\<lparr>merging := True, MergingWith := [0]\<rparr>)"

text \<open>
  Two particles of the same mass and of opposite close charge, two units apart; and a
  saved state that holds them with merging allowed.
\<close>

definition twinA :: Particle where
  "twinA = (NewParticle (Fin 36) (Fin (1 / 2)) (Fin (1 / 2)) (Fin 10) (Fin 10))
             \<lparr>Velocity := (Fin 1, Fin 0)\<rparr>"

definition twinB :: Particle where
  "twinB = NewParticle (Fin 36) (Fin (- 1 / 2)) (Fin (1 / 2)) (Fin 12) (Fin 10)"

definition twinHeap :: "addr \<Rightarrow> Particle" where
  "twinHeap = (\<lambda>_. zeroParticle)(0 := twinA, 1 := twinB)"

definition savedTwins :: savedData where
  "savedTwins =
     \<lparr>fGravityStrength = Fin 15, fCloseChargeStrength = Fin 150000000,
      fFarChargeStrength = Fin (15 / 2), fEnvironmentSize = 800,
      fAllowMerge = True, fWallBounce = True,
      fParticles =
        [\<lparr>sMass = Fin 36, sCloseCharge = Fin (1 / 2), sFarCharge = Fin (1 / 2),
          sPosition = (Fin 10, Fin 10), sVelocity = (Fin 1, Fin 0)\<rparr>,
         \<lparr>sMass = Fin 36, sCloseCharge = Fin (- 1 / 2), sFarCharge = Fin (1 / 2),
          sPosition = (Fin 12, Fin 10), sVelocity = (Fin 0, Fin 0)\<rparr>],
      fNumberOfParticles = 2, fAverageMass = 36, fHistoryTrail = True, fHistoryLength = 15,
      fPhysicsLoopSpeed = 75\<rparr>"

text \<open>The application after it has loaded that saved state into the main state.\<close>

definition loadedTwins :: App where
  "loadedTwins = the (LoadStateEvent (Some savedTwins) mainState)"

subsection \<open>Bookkeeping of the merge pass\<close>

text \<open>
  \<open>histView\<close> is the history part of a particle. A particle is \<open>clean\<close> when it carries
  no merge state. \<open>pendingOK\<close> says that a particle with partners is flagged as merging,
  which the force step maintains. \<open>shrinks p p'\<close> relates a particle to what the merge
  pass may make of it: partners are only removed, and the flag is only ever cleared
  together with the last partner.
\<close>

definition histView :: "Particle \<Rightarrow> bool \<times> int \<times> vec list" where
  "histView p = (trackHistory p, historySize p, positionHistory p)"

definition clean :: "Particle \<Rightarrow> bool" where
  "clean p \<longleftrightarrow> \<not> merging p \<and> MergingWith p = []"

definition pendingOK :: "Particle \<Rightarrow> bool" where
  "pendingOK p \<longleftrightarrow> (MergingWith p \<noteq> [] \<longrightarrow> merging p)"

definition shrinks :: "Particle \<Rightarrow> Particle \<Rightarrow> bool" where
  "shrinks p p' \<longleftrightarrow>
     (\<exists>l mg. p' = p\<lparr>MergingWith := l, merging := mg\<rparr> \<and> set l \<subseteq> set (MergingWith p) \<and>
             (mg = merging p \<or> (\<not> mg \<and> l = [])))"

text \<open>
  The invariant of the merge loop after some prefix of the roster \<open>ps\<close>, for the heap \<open>h\<close>
  and the allocation counter \<open>n\<close> that the loop started with: the particles that existed
  before have only shrunk, the particles to add are new, clean, and have the history
  settings of a particle of the roster, the indices to delete are increasing positions of
  the roster, and every particle that is still flagged has its index marked for deletion.
\<close>

definition mergeInv :: "addr list \<Rightarrow> (addr \<Rightarrow> Particle) \<Rightarrow> addr \<Rightarrow> mergeLoop \<Rightarrow> bool" where
  "mergeInv ps h n m \<longleftrightarrow>
     n \<le> mnext m \<and> set (addList m) \<subseteq> {n..<mnext m} \<and>
     (\<forall>x<n. shrinks (h x) (mheap m x)) \<and>
     (\<forall>a \<in> set (addList m). clean (mheap m a) \<and>
        (\<exists>p \<in> set ps. histView (mheap m a) = histView (h p))) \<and>
     sorted (deleteList m) \<and> distinct (deleteList m) \<and>
     set (deleteList m) \<subseteq> {..<length ps} \<and>
     (\<forall>j<length ps. j \<notin> set (deleteList m) \<longrightarrow> \<not> merging (mheap m (ps ! j)))"

subsection \<open>Walls\<close>








subsection \<open>States of the running application\<close>

text \<open>
  \<open>histOK k p\<close>: the history of \<open>p\<close> is no longer than its \<^verbatim>\<open>historySize\<close>, which is \<open>k\<close>.
  \<open>histInv\<close> is the invariant of the application state: the roster is allocated, every
  particle of it satisfies \<open>histOK\<close> for the application's history length, and the length
  is not negative once there are initial particles to restore.

  \<open>reachable\<close> are the states of the application: \<^verbatim>\<open>main\<close> generates the particles of
  the main state, then ticks and event handlers follow in any order. The history length
  slider ranges from 3 to 100; a loaded file may hold anything. A handler that panics
  has no successor state.
\<close>

definition histOK :: "int \<Rightarrow> Particle \<Rightarrow> bool" where
  "histOK k p \<longleftrightarrow> int (length (positionHistory p)) \<le> historySize p \<and> historySize p = k"

definition histInv :: "App \<Rightarrow> bool" where
  "histInv a \<longleftrightarrow>
     (\<forall>p \<in> set (roster a). p < nextAddr (sim a)) \<and>
     (\<forall>p \<in> set (roster a). histOK (HistoryLength a) (particleAt a p)) \<and>
     (initialParticles (Engine (sim a)) \<noteq> [] \<longrightarrow> 0 \<le> HistoryLength a)"

inductive reachable :: "App \<Rightarrow> bool" where
  start: "GenerateParticles rnd mainState = Some a \<Longrightarrow> reachable a"
| tick: "reachable a \<Longrightarrow> permutes srt \<Longrightarrow> physicsTick srt a = Some a' \<Longrightarrow> reachable a'"
| environmentSize: "reachable a \<Longrightarrow> EnvironmentSizeChangedEvent rnd v a = Some a' \<Longrightarrow> reachable a'"
| numParticles: "reachable a \<Longrightarrow> NumParticlesChangedEvent rnd v a = Some a' \<Longrightarrow> reachable a'"
| averageMass: "reachable a \<Longrightarrow> AverageMassChangedEvent rnd v a = Some a' \<Longrightarrow> reachable a'"
| regen: "reachable a \<Longrightarrow> RegenParticlesEvent rnd a = Some a' \<Longrightarrow> reachable a'"
| gravity: "reachable a \<Longrightarrow> reachable (GravityStrengthChangedEvent x a)"
| closeCharge: "reachable a \<Longrightarrow> reachable (CloseChargeStrengthChangedEvent x a)"
| farCharge: "reachable a \<Longrightarrow> reachable (FarChargeStrengthChangedEvent x a)"
| allowMerge: "reachable a \<Longrightarrow> reachable (AllowMergeChangedEvent b a)"
| wallBounce: "reachable a \<Longrightarrow> reachable (WallBounceChangedEvent b a)"
| historyTrail: "reachable a \<Longrightarrow> reachable (HistoryTrailChangedEvent b a)"
| historyLength: "reachable a \<Longrightarrow> 3 \<le> v \<Longrightarrow> v \<le> 100 \<Longrightarrow>
     HistoryTrailLengthChangedEvent v a = Some a' \<Longrightarrow> reachable a'"
| loopSpeed: "reachable a \<Longrightarrow> reachable (PhysicsLoopSpeedChangedEvent v a)"
| pauseResume: "reachable a \<Longrightarrow> reachable (PauseResumeEvent a)"
| reset: "reachable a \<Longrightarrow> ResetEnvironmentEvent a = Some a' \<Longrightarrow> reachable a'"
| load: "reachable a \<Longrightarrow> LoadStateEvent fl a = Some a' \<Longrightarrow> reachable a'"

text \<open>
  \<open>cleanInv\<close>: the roster is allocated and none of its particles carries merge state.
\<close>

definition cleanInv :: "App \<Rightarrow> bool" where
  "cleanInv a \<longleftrightarrow>
     (\<forall>p \<in> set (roster a). p < nextAddr (sim a) \<and> clean (particleAt a p))"

text \<open>
  The first state of the application; the two particles \<open>heavy\<close> and \<open>light\<close> under the
  engine of the main state; an application state that holds them with history length 3,
  and that state after the history length is set to 1.
\<close>

definition firstState :: App where
  "firstState = the (GenerateParticles noDraws mainState)"

definition twoSim :: Sim where
  "twoSim = \<lparr>heap = twoHeap, nextAddr = 2,
             Engine = (Engine (sim mainState))\<lparr>Particles := [0, 1]\<rparr>\<rparr>"

definition trackedApp :: App where
  "trackedApp = mainState\<lparr>sim := twoSim, HistoryLength := 3\<rparr>"

definition shrunkApp :: App where
  "shrunkApp = the (HistoryTrailLengthChangedEvent 1 trackedApp)"

section \<open>Facts about floats and the example particles\<close>

lemma f_add_NaN_right: "f_add x NaN = NaN"
  by (cases x) simp_all

lemma isFin_val: "isFin x \<Longrightarrow> x = Fin (val x)"
  by (cases x) simp_all

lemma f_div_self: "f_div m m = Fin 1 \<or> f_div m m = NaN"
  by (cases m) auto

lemma massRatio_as_max_over_min:
  "(if f_gt a b then f_div a b else f_div b a) = f_div (f_max a b) (f_min a b)"
  by (cases a; cases b) (auto simp: f_gt_def max_def min_def)

lemma sqrt_pi_bounds: "6 / 5 < sqrt pi \<and> sqrt pi < 2"
proof
  have "(6 / 5 :: real)\<^sup>2 < pi" using pi_ge_two by (simp add: power2_eq_square)
  then show "6 / 5 < sqrt pi" by (rule real_less_rsqrt)
  have "sqrt pi < sqrt 4" by (rule real_sqrt_less_mono [OF pi_less_4])
  then show "sqrt pi < 2" by simp
qed

lemma sqrt_36: "sqrt 36 = 6"
  by (rule real_sqrt_unique) simp_all

lemma roundHalfAway_between:
  "of_int k - 1 / 2 \<le> a \<Longrightarrow> a < of_int k + 1 / 2 \<Longrightarrow> 0 \<le> a \<Longrightarrow> roundHalfAway a = k"
  unfolding roundHalfAway_def by (simp add: floor_unique)

text \<open>The radius of a particle of mass 36 is 2, that of a particle of mass 4 is 1.\<close>

lemma Radius_mass_36: "Radius (SetMass (Fin 36) p) = 2"
proof -
  have b: "6 / 5 < sqrt pi" "sqrt pi < 2" using sqrt_pi_bounds by simp_all
  have "roundHalfAway (6 / (2 * sqrt pi)) = 2"
    using b by (intro roundHalfAway_between) (simp_all add: field_simps)
  then show ?thesis
    using b by (simp add: SetMass_def SqrtPi_def sqrt_36 truncReal_def)
qed

lemma Radius_mass_4: "Radius (SetMass (Fin 4) p) = 1"
proof -
  have b: "6 / 5 < sqrt pi" "sqrt pi < 2" using sqrt_pi_bounds by simp_all
  have "roundHalfAway (2 / (2 * sqrt pi)) = 1"
    using b by (intro roundHalfAway_between) (simp_all add: field_simps)
  then show ?thesis
    using b by (simp add: SetMass_def SqrtPi_def truncReal_def)
qed

lemma NewParticle_fields:
  "Mass (NewParticle m c f x y) = m"
  "CloseCharge (NewParticle m c f x y) = f_max (Fin (- 1)) (f_min c (Fin 1))"
  "FarCharge (NewParticle m c f x y) = f_max (Fin 0) (f_min f (Fin 1))"
  "Position (NewParticle m c f x y) = (x, y)"
  "Velocity (NewParticle m c f x y) = vzero"
  "Radius (NewParticle m c f x y) = Radius (SetMass m zeroParticle)"
  "trackHistory (NewParticle m c f x y) = False"
  "historySize (NewParticle m c f x y) = 0"
  "positionHistory (NewParticle m c f x y) = []"
  "merging (NewParticle m c f x y) = False"
  "MergingWith (NewParticle m c f x y) = []"
  "bouncing (NewParticle m c f x y) = False"
  "bouncingAgainst (NewParticle m c f x y) = None"
  by (simp_all add: NewParticle_def initializeWithValues_def SetFarCharge_def
      SetCloseCharge_def SetMass_def zeroParticle_def Let_def)

lemma heavy_fields:
  "Mass heavy = Fin 36" "CloseCharge heavy = Fin (1 / 2)" "FarCharge heavy = Fin (1 / 2)"
  "Position heavy = (Fin 10, Fin 10)" "Velocity heavy = (Fin 1, Fin 0)" "Radius heavy = 2"
  "trackHistory heavy" "historySize heavy = 3"
  "positionHistory heavy = [(Fin 8, Fin 10), (Fin 9, Fin 10)]"
  "\<not> merging heavy" "MergingWith heavy = []" "bouncing heavy" "bouncingAgainst heavy = Some 1"
  by (simp_all add: heavy_def NewParticle_fields Radius_mass_36)

lemma light_fields:
  "Mass light = Fin 4" "CloseCharge light = Fin (- 1 / 2)" "FarCharge light = Fin (1 / 4)"
  "Position light = (Fin 11, Fin 10)" "Velocity light = (Fin 0, Fin 1)" "Radius light = 1"
  "trackHistory light" "historySize light = 3" "positionHistory light = [(Fin 11, Fin 9)]"
  "\<not> merging light" "MergingWith light = []" "\<not> bouncing light" "bouncingAgainst light = None"
  by (simp_all add: light_def NewParticle_fields Radius_mass_4)

lemma twinA_fields:
  "Mass twinA = Fin 36" "CloseCharge twinA = Fin (1 / 2)" "Position twinA = (Fin 10, Fin 10)"
  "Velocity twinA = (Fin 1, Fin 0)" "Radius twinA = 2"
  "\<not> merging twinA" "MergingWith twinA = []" "\<not> bouncing twinA" "bouncingAgainst twinA = None"
  by (simp_all add: twinA_def NewParticle_fields Radius_mass_36)

lemma twinB_fields:
  "Mass twinB = Fin 36" "CloseCharge twinB = Fin (- 1 / 2)" "Position twinB = (Fin 12, Fin 10)"
  "Velocity twinB = (Fin 0, Fin 0)" "Radius twinB = 2"
  "\<not> merging twinB" "MergingWith twinB = []" "\<not> bouncing twinB" "bouncingAgainst twinB = None"
  by (simp_all add: twinB_def NewParticle_fields Radius_mass_36 vzero_def)

section \<open>C1: a particle without contributing neighbours\<close>

text \<open>
  C1 asks that a particle whose count of contributing neighbours is zero keeps its
  velocity through the force step, and that no not-a-number reaches a velocity. The
  source divides by the count all the same. With a single particle in the roster the
  count is zero, the factor \<open>1 / 0\<close> is the positive infinity, the three zero
  sums times infinity are not-a-number, and the velocity of the particle, whatever it
  was, is \<open>(NaN, NaN)\<close> after the step.
\<close>

theorem lone_particle_velocity_NaN:
  "Velocity (updateParticleVelocities eng [p] h p) = (NaN, NaN)"
  by (simp add: updateParticleVelocities_def particleStep_def pairStep_def ofInt_def
      Scale_def Add_def vzero_def SetVelocity_def infTimes_def f_add_NaN_right)

section \<open>C10: clones and the reset to the initial snapshot\<close>

lemma Clone_fresh: "freshState (Clone p)"
  by (simp add: freshState_def Clone_def NewParticle_def initializeWithValues_def
      SetVelocity_def SetFarCharge_def SetCloseCharge_def SetMass_def zeroParticle_def Let_def)

lemma Clone_copies:
  "Mass (Clone p) = Mass p \<and> Position (Clone p) = Position p \<and>
   Velocity (Clone p) = Velocity p \<and>
   CloseCharge (Clone p) = f_max (Fin (- 1)) (f_min (CloseCharge p) (Fin 1)) \<and>
   FarCharge (Clone p) = f_max (Fin 0) (f_min (FarCharge p) (Fin 1))"
  by (simp add: Clone_def NewParticle_def initializeWithValues_def
      SetVelocity_def SetFarCharge_def SetCloseCharge_def SetMass_def zeroParticle_def Let_def)

lemma Clone_sameCore: "sameCore p p' \<Longrightarrow> Clone p = Clone p'"
  by (simp add: sameCore_def Clone_def)

lemma cloneAll_shape:
  "cloneAll ps h n = (cs, h', n') \<Longrightarrow>
     cs = [n..<n + length ps] \<and> n' = n + length ps \<and> (\<forall>a<n. h' a = h a)"
proof (induction ps arbitrary: h n cs h' n')
  case Nil
  then show ?case by simp
next
  case (Cons p ps)
  obtain cs1 h1 n1 where rec: "cloneAll ps (h(n := Clone (h p))) (Suc n) = (cs1, h1, n1)"
    by (metis prod_cases3)
  with Cons.prems have eq: "cs = n # cs1" "h' = h1" "n' = n1" by simp_all
  from Cons.IH [OF rec] have ih: "cs1 = [Suc n..<Suc n + length ps]"
    "n1 = Suc n + length ps" "\<forall>a<Suc n. h1 a = (h(n := Clone (h p))) a" by simp_all
  have "[n..<n + length (p # ps)] = n # [Suc n..<Suc n + length ps]"
    by (simp add: upt_conv_Cons del: upt_Suc)
  then show ?case using eq ih by simp
qed

lemma cloneAll_clones:
  "cloneAll ps h n = (cs, h', n') \<Longrightarrow> a \<in> set cs \<Longrightarrow> \<exists>x. h' a = Clone x"
proof (induction ps arbitrary: h n cs h' n')
  case Nil
  then show ?case by simp
next
  case (Cons p ps)
  obtain cs1 h1 n1 where rec: "cloneAll ps (h(n := Clone (h p))) (Suc n) = (cs1, h1, n1)"
    by (metis prod_cases3)
  with Cons.prems have eq: "cs = n # cs1" "h' = h1" by simp_all
  show ?case
  proof (cases "a = n")
    case True
    from cloneAll_shape [OF rec] have "h1 n = (h(n := Clone (h p))) n" by simp
    then show ?thesis using True eq by auto
  next
    case False
    then have "a \<in> set cs1" using Cons.prems(2) eq by simp
    from Cons.IH [OF rec this] show ?thesis using eq by simp
  qed
qed

text \<open>
  C10. A clone takes the mass, the position and the velocity of the original, and its
  two charges through their setters; it is determined by these five fields alone; and
  after \<^verbatim>\<open>RestoreInitialParticleStates\<close> every particle of the roster, one for each
  particle of the snapshot, has an empty history, tracks none, has history size 0, an
  empty \<^verbatim>\<open>MergingWith\<close>, and neither merges nor bounces, whatever state the
  snapshot or the roster was in.
\<close>

theorem restore_yields_fresh_clones:
  "(Mass (Clone p) = Mass p \<and> Position (Clone p) = Position p \<and>
    Velocity (Clone p) = Velocity p \<and>
    CloseCharge (Clone p) = f_max (Fin (- 1)) (f_min (CloseCharge p) (Fin 1)) \<and>
    FarCharge (Clone p) = f_max (Fin 0) (f_min (FarCharge p) (Fin 1))) \<and>
   (sameCore p p' \<longrightarrow> Clone p = Clone p') \<and>
   length (Particles (Engine (RestoreInitialParticleStates w))) =
     length (initialParticles (Engine w)) \<and>
   (\<forall>a \<in> set (Particles (Engine (RestoreInitialParticleStates w))).
      freshState (heap (RestoreInitialParticleStates w) a))"
proof -
  obtain cs h' n' where c: "cloneAll (initialParticles (Engine w)) (heap w) (nextAddr w) = (cs, h', n')"
    by (metis prod_cases3)
  then have r: "Particles (Engine (RestoreInitialParticleStates w)) = cs"
    "heap (RestoreInitialParticleStates w) = h'"
    by (simp_all add: RestoreInitialParticleStates_def)
  have "length cs = length (initialParticles (Engine w))"
    using cloneAll_shape [OF c] by simp
  moreover have "\<forall>a \<in> set cs. freshState (h' a)"
    using cloneAll_clones [OF c] Clone_fresh by metis
  ultimately show ?thesis
    using r Clone_copies [of p] Clone_sameCore [of p p'] by simp
qed

theorem restore_yields_fresh_clones_witness:
  "sameCore heavy (heavy\<lparr>bouncing := False\<rparr>) \<and>
   Clone heavy = Clone (heavy\<lparr>bouncing := False\<rparr>) \<and>
   Particles (Engine (RestoreInitialParticleStates snapshotSim)) = [2, 3] \<and>
   \<not> freshState (heap snapshotSim 0) \<and>
   freshState (heap (RestoreInitialParticleStates snapshotSim) 2) \<and>
   freshState (heap (RestoreInitialParticleStates snapshotSim) 3)"
proof -
  have s: "sameCore heavy (heavy\<lparr>bouncing := False\<rparr>)"
    by (simp add: sameCore_def)
  have r: "Particles (Engine (RestoreInitialParticleStates snapshotSim)) = [2, 3]"
    by (simp add: RestoreInitialParticleStates_def snapshotSim_def)
  have d: "\<not> freshState (heap snapshotSim 0)"
    by (simp add: freshState_def snapshotSim_def twoHeap_def heavy_fields)
  from restore_yields_fresh_clones [of heavy "heavy\<lparr>bouncing := False\<rparr>" snapshotSim] s r d
  show ?thesis by simp
qed

section \<open>C8: the environment size handler\<close>

lemma forEach_Engine_frame [simp]:
  "Engine (sim (setHeap h a)) = Engine (sim a)"
  by (simp add: setHeap_def)

lemma HistoryTrailChangedEvent_Engine [simp]:
  "Engine (sim (HistoryTrailChangedEvent b a)) = Engine (sim a)"
  by (simp add: HistoryTrailChangedEvent_def Let_def)

lemma HistoryTrailLengthChangedEvent_Engine:
  "HistoryTrailLengthChangedEvent v a = Some a' \<Longrightarrow> Engine (sim a') = Engine (sim a)"
  by (auto simp: HistoryTrailLengthChangedEvent_def Let_def)

lemma setRoster_EnvironmentSize [simp]:
  "EnvironmentSize (Engine (sim (setRoster xs a))) = EnvironmentSize (Engine (sim a))"
  by (simp add: setRoster_def split: prod.splits)

lemma SaveInitialParticleStates_EnvironmentSize [simp]:
  "EnvironmentSize (Engine (SaveInitialParticleStates w)) = EnvironmentSize (Engine w)"
  by (simp add: SaveInitialParticleStates_def split: prod.splits)

lemma GenerateParticles_EnvironmentSize:
  "GenerateParticles rnd a = Some a' \<Longrightarrow>
     EnvironmentSize (Engine (sim a')) = EnvironmentSize (Engine (sim a))"
  by (auto simp: GenerateParticles_def Let_def split: if_splits
      dest!: HistoryTrailLengthChangedEvent_Engine)

text \<open>
  C8 (as amended). \<^verbatim>\<open>EnvironmentSizeChangedEvent\<close> checks nothing: while the
  simulation runs it stores the submitted value and returns, and whenever it returns
  the environment size of the engine is the submitted value, negative or not.
\<close>

theorem environment_size_is_stored_unchecked:
  "(\<not> paused a \<longrightarrow>
      EnvironmentSizeChangedEvent rnd v a = Some (setEngine (\<lambda>e. e\<lparr>EnvironmentSize := v\<rparr>) a)) \<and>
   (\<forall>a'. EnvironmentSizeChangedEvent rnd v a = Some a' \<longrightarrow>
      EnvironmentSize (Engine (sim a')) = v)"
  by (auto simp: EnvironmentSizeChangedEvent_def Let_def setEngine_def split: if_splits
      dest!: GenerateParticles_EnvironmentSize)

theorem environment_size_is_stored_unchecked_witness:
  "\<not> paused (PauseResumeEvent mainState) \<and>
   EnvironmentSizeChangedEvent noDraws (- 5) (PauseResumeEvent mainState) =
     Some (setEngine (\<lambda>e. e\<lparr>EnvironmentSize := - 5\<rparr>) (PauseResumeEvent mainState)) \<and>
   EnvironmentSize (Engine (sim (setEngine (\<lambda>e. e\<lparr>EnvironmentSize := - 5\<rparr>)
     (PauseResumeEvent mainState)))) = - 5"
proof -
  have p: "\<not> paused (PauseResumeEvent mainState)"
    by (simp add: PauseResumeEvent_def mainState_def)
  from environment_size_is_stored_unchecked [of "PauseResumeEvent mainState" noDraws "- 5"] p
  show ?thesis by simp
qed

text \<open>
  C8 as stated fails: the negative size \<open>- 5\<close> submitted to the running simulation of
  \<^verbatim>\<open>main\<close> is not rejected, and the environment size changes from 800 to \<open>- 5\<close>.
\<close>

theorem negative_environment_size_accepted:
  "EnvironmentSize (Engine (sim (PauseResumeEvent mainState))) = 800 \<and>
   environmentSizeAfter
     (EnvironmentSizeChangedEvent noDraws (- 5) (PauseResumeEvent mainState)) = Some (- 5)"
  by (simp add: environmentSizeAfter_def EnvironmentSizeChangedEvent_def PauseResumeEvent_def
      mainState_def setEngine_def Initialize_def zeroEngine_def)

section \<open>C3 and C7: the classification of a new collision\<close>

lemma collide_condition:
  "(AllowMerge eng \<and> f_gt (massRatioOf eng P Q) (mergeMassRatioThreshold eng) \<and>
      (Signbit (CloseCharge P) \<noteq> Signbit (CloseCharge Q) \<or>
       f_lt (f_add (f_abs (CloseCharge P)) (f_abs (CloseCharge Q))) (mergeCloseChargeThreshold eng)))
   = mergeCondition eng P Q"
  by (auto simp: mergeCondition_def massRatioOf_def massRatio_as_max_over_min [symmetric])

lemma collide_when_merge:
  "mergeCondition eng (h p) (h q) \<Longrightarrow>
   collide eng p q h =
     (if p \<notin> set (MergingWith
                    ((h(p := (h p)\<lparr>merging := True,
                                    MergingWith := mapInsert q (MergingWith (h p))\<rparr>)) q))
      then (h(p := (h p)\<lparr>merging := True, MergingWith := mapInsert q (MergingWith (h p))\<rparr>))
             (q := ((h(p := (h p)\<lparr>merging := True,
                                    MergingWith := mapInsert q (MergingWith (h p))\<rparr>)) q)
                     \<lparr>merging := True,
                      MergingWith := mapInsert p (MergingWith
                        ((h(p := (h p)\<lparr>merging := True,
                                        MergingWith := mapInsert q (MergingWith (h p))\<rparr>)) q))\<rparr>)
      else h(p := (h p)\<lparr>merging := True, MergingWith := mapInsert q (MergingWith (h p))\<rparr>))"
  unfolding collide_def Let_def collide_condition by simp

lemma collide_when_bounce:
  "\<not> mergeCondition eng (h p) (h q) \<Longrightarrow>
   collide eng p q h =
     (h(p := (h p)\<lparr>bouncing := True, bouncingAgainst := Some q\<rparr>))
       (p := SetVelocity
               (Subtract (Velocity ((h(p := (h p)\<lparr>bouncing := True, bouncingAgainst := Some q\<rparr>)) p))
                  (Scale (bounceNormal (Velocity (h p)) (Velocity (h q)))
                     (f_mul (Dot (Velocity (h p)) (bounceNormal (Velocity (h p)) (Velocity (h q))))
                        (Fin 2))))
               ((h(p := (h p)\<lparr>bouncing := True, bouncingAgainst := Some q\<rparr>)) p))"
  unfolding collide_def Let_def collide_condition bounceNormal_def by simp

lemma collide_merges:
  assumes "mergeCondition eng (h p) (h q)" "p \<noteq> q" "p \<notin> set (MergingWith (h q))"
  shows "mergedPair h (collide eng p q h) p q"
  using assms(2,3) unfolding collide_when_merge [OF assms(1)]
  by (auto simp: mergedPair_def mapInsert_def)

lemma collide_bounces:
  assumes "\<not> mergeCondition eng (h p) (h q)" "p \<noteq> q"
  shows "bouncedOff h (collide eng p q h) p q"
  using assms(2) unfolding collide_when_bounce [OF assms(1)]
  by (simp add: bouncedOff_def SetVelocity_def reflectAcross_def)

lemma pairStep_firstContact:
  "firstContact (lheap s) p q \<Longrightarrow> pairStep eng p q s = s\<lparr>lheap := collide eng p q (lheap s)\<rparr>"
  by (auto simp: firstContact_def pairStep_def Let_def)

lemma firstContact_light_heavy: "firstContact twoHeap 1 0"
  by (simp add: firstContact_def twoHeap_def heavy_fields light_fields Magnitude_def
      Subtract_def f_sub_def ofInt_def)

lemma firstContact_twins: "firstContact twinHeap 0 1"
  by (simp add: firstContact_def twinHeap_def twinA_fields twinB_fields Magnitude_def
      Subtract_def f_sub_def ofInt_def)

text \<open>
  C3. For a new collision of \<open>p\<close> with \<open>q\<close>, where \<open>p\<close> is not in the
  \<^verbatim>\<open>MergingWith\<close> of \<open>q\<close> either (the relation is symmetric), the step of the inner
  loop puts \<open>q\<close> into the \<^verbatim>\<open>MergingWith\<close> of \<open>p\<close> exactly when the merge condition
  of the specification holds. Then both particles are marked as merging and each is
  added to the other's set; otherwise \<open>p\<close> bounces off \<open>q\<close>. In both cases the pair
  adds nothing to the force sums.
\<close>

theorem new_collision_classification:
  assumes "firstContact (lheap s) p q"
    and "p \<notin> set (MergingWith (lheap s q))"
  shows "(q \<in> set (MergingWith (lheap (pairStep eng p q s) p)) \<longleftrightarrow>
            mergeCondition eng (lheap s p) (lheap s q)) \<and>
         (mergeCondition eng (lheap s p) (lheap s q) \<longrightarrow>
            mergedPair (lheap s) (lheap (pairStep eng p q s)) p q) \<and>
         (\<not> mergeCondition eng (lheap s p) (lheap s q) \<longrightarrow>
            bouncedOff (lheap s) (lheap (pairStep eng p q s)) p q) \<and>
         ct (pairStep eng p q s) = ct s \<and> gAcc (pairStep eng p q s) = gAcc s \<and>
         cAcc (pairStep eng p q s) = cAcc s \<and> fAcc (pairStep eng p q s) = fAcc s"
proof -
  have ne: "p \<noteq> q" and nm: "q \<notin> set (MergingWith (lheap s p))"
    using assms(1) by (simp_all add: firstContact_def)
  have st: "pairStep eng p q s = s\<lparr>lheap := collide eng p q (lheap s)\<rparr>"
    by (rule pairStep_firstContact [OF assms(1)])
  show ?thesis
  proof (cases "mergeCondition eng (lheap s p) (lheap s q)")
    case True
    from collide_merges [OF True ne assms(2)] show ?thesis
      using True st by (simp add: mergedPair_def)
  next
    case False
    from collide_bounces [OF False ne] show ?thesis
      using False st nm by (simp add: bouncedOff_def)
  qed
qed

theorem new_collision_classification_witness:
  "firstContact (lheap (startLoop twoHeap)) 1 0 \<and>
   1 \<notin> set (MergingWith (lheap (startLoop twoHeap) 0)) \<and>
   mergeCondition (Initialize zeroEngine) light heavy \<and>
   mergedPair twoHeap (lheap (pairStep (Initialize zeroEngine) 1 0 (startLoop twoHeap))) 1 0 \<and>
   \<not> mergeCondition ((Initialize zeroEngine)\<lparr>AllowMerge := False\<rparr>) light heavy \<and>
   bouncedOff twoHeap
     (lheap (pairStep ((Initialize zeroEngine)\<lparr>AllowMerge := False\<rparr>) 1 0 (startLoop twoHeap))) 1 0"
proof -
  have fc: "firstContact (lheap (startLoop twoHeap)) 1 0"
    using firstContact_light_heavy by (simp add: startLoop_def)
  have sym: "1 \<notin> set (MergingWith (lheap (startLoop twoHeap) 0))"
    by (simp add: startLoop_def twoHeap_def heavy_fields)
  have hp: "lheap (startLoop twoHeap) = twoHeap" "twoHeap 1 = light" "twoHeap 0 = heavy"
    by (simp_all add: startLoop_def twoHeap_def)
  have mc: "mergeCondition (Initialize zeroEngine) light heavy"
    by (simp add: mergeCondition_def Initialize_def zeroEngine_def heavy_fields light_fields
        f_gt_def)
  have nmc: "\<not> mergeCondition ((Initialize zeroEngine)\<lparr>AllowMerge := False\<rparr>) light heavy"
    by (simp add: mergeCondition_def)
  from new_collision_classification [OF fc sym, of "Initialize zeroEngine"]
    new_collision_classification [OF fc sym, of "(Initialize zeroEngine)\<lparr>AllowMerge := False\<rparr>"]
    fc sym mc nmc
  show ?thesis unfolding hp by blast
qed

text \<open>
  Two particles of the same mass have the ratio 1. With the threshold 2.5 that
  \<^verbatim>\<open>Initialize\<close> sets, and with any threshold of at least 1, a new collision of two
  such particles ends in a bounce, whatever their close charges and whether or not
  merging is allowed.
\<close>

lemma equal_masses_bounce:
  assumes "firstContact (lheap s) p q"
    and "Mass (lheap s p) = Mass (lheap s q)"
    and "mergeMassRatioThreshold eng = Fin t" and "1 \<le> t"
  shows "bouncedOff (lheap s) (lheap (pairStep eng p q s)) p q"
proof -
  have ne: "p \<noteq> q" using assms(1) by (simp add: firstContact_def)
  have "f_max (Mass (lheap s q)) (Mass (lheap s q)) = Mass (lheap s q)"
       "f_min (Mass (lheap s q)) (Mass (lheap s q)) = Mass (lheap s q)"
    by (cases "Mass (lheap s q)"; simp)+
  moreover have "\<not> f_gt (Fin 1) (Fin t)" "\<not> f_gt NaN (Fin t)"
    using assms(4) by (simp_all add: f_gt_def)
  ultimately have "\<not> mergeCondition eng (lheap s p) (lheap s q)"
    using f_div_self [of "Mass (lheap s q)"] assms(2,3) by (auto simp: mergeCondition_def)
  from collide_bounces [OF this ne] show ?thesis
    by (simp add: pairStep_firstContact [OF assms(1)])
qed

text \<open>
  After \<^verbatim>\<open>LoadStateEvent\<close> has read a file, the three tuning constants of the engine
  are zero, and merging is allowed if the file says so.
\<close>

lemma setRoster_Engine:
  "\<exists>ps. Engine (sim (setRoster xs a)) = (Engine (sim a))\<lparr>Particles := ps\<rparr>"
  by (auto simp: setRoster_def split: prod.splits)

lemma SaveInitialParticleStates_Engine:
  "\<exists>ps. Engine (SaveInitialParticleStates w) = (Engine w)\<lparr>initialParticles := ps\<rparr>"
  by (auto simp: SaveInitialParticleStates_def split: prod.splits)

lemma load_resets_tuning_constants:
  assumes "LoadStateEvent (Some d) a = Some a'"
  shows "mergeMassRatioThreshold (Engine (sim a')) = Fin 0 \<and>
         mergeCloseChargeThreshold (Engine (sim a')) = Fin 0 \<and>
         bounceCompleteDistFactor (Engine (sim a')) = Fin 0 \<and>
         AllowMerge (Engine (sim a')) = fAllowMerge d"
proof -
  define a1 where "a1 = a\<lparr>NumberOfParticles := fNumberOfParticles d, AverageMass := fAverageMass d,
                HistoryTrail := fHistoryTrail d, HistoryLength := fHistoryLength d,
                PhysicsLoopSpeed := fPhysicsLoopSpeed d\<rparr>"
  define a2 where "a2 = setRoster (map decodedParticle (fParticles d))
                          (setEngine (\<lambda>_. decodedEngine d) a1)"
  define a3 where "a3 = a2\<lparr>sim := SaveInitialParticleStates (InitializeParticles (sim a2))\<rparr>"
  obtain ps where e2: "Engine (sim a2) = (decodedEngine d)\<lparr>Particles := ps\<rparr>"
    using setRoster_Engine [of "map decodedParticle (fParticles d)" "setEngine (\<lambda>_. decodedEngine d) a1"]
    by (auto simp: a2_def setEngine_def)
  obtain qs where e3: "Engine (sim a3) = (Engine (sim a2))\<lparr>initialParticles := qs\<rparr>"
    using SaveInitialParticleStates_Engine [of "InitializeParticles (sim a2)"]
    by (auto simp: a3_def InitializeParticles_def)
  have "HistoryTrailLengthChangedEvent (fHistoryLength d)
          (HistoryTrailChangedEvent (fHistoryTrail d) a3) = Some a'"
    using assms by (simp add: LoadStateEvent_def Let_def a1_def a2_def a3_def)
  from HistoryTrailLengthChangedEvent_Engine [OF this]
  have "Engine (sim a') = Engine (sim a3)" by simp
  then show ?thesis
    by (simp add: e3 e2 decodedEngine_def)
qed

section \<open>C2: the particle built by a merge\<close>

lemma absorb_heap: "\<exists>l. aheap (absorb p q a) x = (aheap a x)\<lparr>MergingWith := l\<rparr>"
proof (cases "x = q")
  case True
  then show ?thesis by (auto simp: absorb_def Let_def)
next
  case False
  then have "aheap (absorb p q a) x = (aheap a x)\<lparr>MergingWith := MergingWith (aheap a x)\<rparr>"
    by (simp add: absorb_def Let_def)
  then show ?thesis by blast
qed

lemma fold_absorb_heap:
  "\<exists>l. aheap (fold (absorb p) qs a) x = (aheap a x)\<lparr>MergingWith := l\<rparr>"
proof (induction qs arbitrary: a)
  case Nil
  have "aheap a x = (aheap a x)\<lparr>MergingWith := MergingWith (aheap a x)\<rparr>" by simp
  then show ?case by (metis fold_simps(1))
next
  case (Cons q qs)
  obtain l1 where 1: "aheap (absorb p q a) x = (aheap a x)\<lparr>MergingWith := l1\<rparr>"
    using absorb_heap by blast
  obtain l2 where 2: "aheap (fold (absorb p) qs (absorb p q a)) x =
      (aheap (absorb p q a) x)\<lparr>MergingWith := l2\<rparr>"
    using Cons.IH by blast
  have "aheap (fold (absorb p) (q # qs) a) x = (aheap a x)\<lparr>MergingWith := l2\<rparr>"
    using 1 2 by simp
  then show ?case by blast
qed

lemma absorb_Mass [simp]: "Mass (aheap (absorb p q a) x) = Mass (aheap a x)"
  and absorb_CloseCharge [simp]: "CloseCharge (aheap (absorb p q a) x) = CloseCharge (aheap a x)"
  and absorb_FarCharge [simp]: "FarCharge (aheap (absorb p q a) x) = FarCharge (aheap a x)"
  by (simp_all add: absorb_def Let_def)

lemma fold_absorb_sums:
  assumes "\<forall>q \<in> set qs. isFin (Mass (aheap a q)) \<and> isFin (CloseCharge (aheap a q)) \<and>
              isFin (FarCharge (aheap a q))"
    and "amass a = Fin M" "acloseCharge a = Fin C" "afarCharge a = Fin F"
  shows "amass (fold (absorb p) qs a) = Fin (M + (\<Sum>q\<leftarrow>qs. val (Mass (aheap a q)))) \<and>
         acloseCharge (fold (absorb p) qs a) =
           Fin (C + (\<Sum>q\<leftarrow>qs. val (CloseCharge (aheap a q)) * val (Mass (aheap a q)))) \<and>
         afarCharge (fold (absorb p) qs a) =
           Fin (F + (\<Sum>q\<leftarrow>qs. val (FarCharge (aheap a q)) * val (Mass (aheap a q))))"
  using assms
proof (induction qs arbitrary: a M C F)
  case Nil
  then show ?case by simp
next
  case (Cons q qs)
  let ?a = "absorb p q a"
  have fin: "Mass (aheap a q) = Fin (val (Mass (aheap a q)))"
    "CloseCharge (aheap a q) = Fin (val (CloseCharge (aheap a q)))"
    "FarCharge (aheap a q) = Fin (val (FarCharge (aheap a q)))"
    using Cons.prems(1) by (simp_all add: isFin_val)
  have m: "amass ?a = Fin (M + val (Mass (aheap a q)))"
    using Cons.prems(2) fin(1) by (simp add: absorb_def Let_def) (metis f_add.simps(1))
  have c: "acloseCharge ?a = Fin (C + val (CloseCharge (aheap a q)) * val (Mass (aheap a q)))"
    using Cons.prems(3) fin(1,2)
    by (simp add: absorb_def Let_def) (metis f_add.simps(1) f_mul.simps(1))
  have f: "afarCharge ?a = Fin (F + val (FarCharge (aheap a q)) * val (Mass (aheap a q)))"
    using Cons.prems(4) fin(1,3)
    by (simp add: absorb_def Let_def) (metis f_add.simps(1) f_mul.simps(1))
  have pre: "\<forall>x \<in> set qs. isFin (Mass (aheap ?a x)) \<and> isFin (CloseCharge (aheap ?a x)) \<and>
              isFin (FarCharge (aheap ?a x))"
    using Cons.prems(1) by simp
  from Cons.IH [OF pre m c f] show ?case by (simp add: add.assoc)
qed

lemma weighted_sum_bounds:
  fixes m c :: "'a \<Rightarrow> real"
  assumes "\<forall>x \<in> set xs. 0 < m x \<and> lo \<le> c x \<and> c x \<le> hi"
  shows "lo * (\<Sum>x\<leftarrow>xs. m x) \<le> (\<Sum>x\<leftarrow>xs. c x * m x) \<and>
         (\<Sum>x\<leftarrow>xs. c x * m x) \<le> hi * (\<Sum>x\<leftarrow>xs. m x)"
  using assms
proof (induction xs)
  case Nil
  then show ?case by simp
next
  case (Cons x xs)
  then have step: "lo * m x \<le> c x * m x" "c x * m x \<le> hi * m x"
    by (simp_all add: mult_right_mono)
  have ih: "lo * (\<Sum>x\<leftarrow>xs. m x) \<le> (\<Sum>x\<leftarrow>xs. c x * m x)"
    "(\<Sum>x\<leftarrow>xs. c x * m x) \<le> hi * (\<Sum>x\<leftarrow>xs. m x)"
    using Cons by simp_all
  show ?case using step ih by (simp add: distrib_left add_mono)
qed

lemma sum_list_masses_nonneg:
  fixes m :: "'a \<Rightarrow> real"
  shows "\<forall>x \<in> set xs. 0 < m x \<Longrightarrow> 0 \<le> (\<Sum>x\<leftarrow>xs. m x)"
  by (rule sum_list_nonneg) auto

lemma mergedParticle_Mass: "Mass (mergedParticle p h) = amass (aggregateCluster p h)"
  by (simp add: mergedParticle_def Let_def NewParticle_fields SetVelocity_def
      SetTrackHistory_def SetHistorySize_def SetPositionHistory_def)

lemma mergedParticle_CloseCharge:
  "CloseCharge (mergedParticle p h) =
     f_max (Fin (- 1)) (f_min (f_div (acloseCharge (aggregateCluster p h))
                                     (amass (aggregateCluster p h))) (Fin 1))"
  by (simp add: mergedParticle_def Let_def NewParticle_fields SetVelocity_def
      SetTrackHistory_def SetHistorySize_def SetPositionHistory_def)

lemma mergedParticle_FarCharge:
  "FarCharge (mergedParticle p h) =
     f_max (Fin 0) (f_min (f_div (afarCharge (aggregateCluster p h))
                                 (amass (aggregateCluster p h))) (Fin 1))"
  by (simp add: mergedParticle_def Let_def NewParticle_fields SetVelocity_def
      SetTrackHistory_def SetHistorySize_def SetPositionHistory_def)

lemma aggregate_sums:
  assumes "\<forall>x \<in> set (participants h p). legalParticle (h x)"
  shows "amass (aggregateCluster p h) = Fin (totalMass h p) \<and>
         acloseCharge (aggregateCluster p h) =
           Fin (\<Sum>x\<leftarrow>participants h p. val (CloseCharge (h x)) * val (Mass (h x))) \<and>
         afarCharge (aggregateCluster p h) =
           Fin (\<Sum>x\<leftarrow>participants h p. val (FarCharge (h x)) * val (Mass (h x)))"
proof -
  let ?a = "\<lparr>aheap = h, amass = Mass (h p),
        acloseCharge = f_mul (CloseCharge (h p)) (Mass (h p)),
        afarCharge = f_mul (FarCharge (h p)) (Mass (h p)),
        aposition = Scale (Position (h p)) (Mass (h p)),
        avelocity = Velocity (h p)\<rparr>"
  have lp: "legalParticle (h p)" using assms by (simp add: participants_def)
  have fin: "Mass (h p) = Fin (val (Mass (h p)))"
    "CloseCharge (h p) = Fin (val (CloseCharge (h p)))"
    "FarCharge (h p) = Fin (val (FarCharge (h p)))"
    using lp by (simp_all add: legalParticle_def isFin_val)
  have 1: "\<forall>q \<in> set (MergingWith (h p)). isFin (Mass (aheap ?a q)) \<and>
      isFin (CloseCharge (aheap ?a q)) \<and> isFin (FarCharge (aheap ?a q))"
    using assms by (simp add: participants_def legalParticle_def)
  have 2: "amass ?a = Fin (val (Mass (h p)))" using fin(1) by simp
  have 3: "acloseCharge ?a = Fin (val (CloseCharge (h p)) * val (Mass (h p)))"
    using fin(1,2) by simp (metis f_mul.simps(1))
  have 4: "afarCharge ?a = Fin (val (FarCharge (h p)) * val (Mass (h p)))"
    using fin(1,3) by simp (metis f_mul.simps(1))
  from fold_absorb_sums [OF 1 2 3 4, of p] show ?thesis
    by (simp add: aggregateCluster_def totalMass_def participants_def)
qed

text \<open>
  C2. When the merge loop visits a merging particle \<open>p\<close> whose \<^verbatim>\<open>MergingWith\<close> is
  not empty, and \<open>p\<close> and its partners have finite positive masses and charges within
  their ranges, the particle it builds and adds has the sum of their masses as its mass,
  and as its close and far charge the means of theirs weighted by mass, which lie in
  \<open>[-1, 1]\<close> and \<open>[0, 1]\<close>. (Finite arithmetic is exact in the model, so the sums are
  met exactly.)
\<close>

theorem merge_conserves_mass_and_averages_charges:
  assumes "\<forall>x \<in> set (participants (mheap m) p). legalParticle (mheap m x)"
    and "merging (mheap m p)" and "MergingWith (mheap m p) \<noteq> []"
  shows "mheap (mergeStep (i, p) m) (mnext m) = mergedParticle p (mheap m) \<and>
         addList (mergeStep (i, p) m) = addList m @ [mnext m] \<and>
         Mass (mergedParticle p (mheap m)) = Fin (totalMass (mheap m) p) \<and>
         CloseCharge (mergedParticle p (mheap m)) = Fin (weightedMean CloseCharge (mheap m) p) \<and>
         - 1 \<le> weightedMean CloseCharge (mheap m) p \<and>
         weightedMean CloseCharge (mheap m) p \<le> 1 \<and>
         FarCharge (mergedParticle p (mheap m)) = Fin (weightedMean FarCharge (mheap m) p) \<and>
         0 \<le> weightedMean FarCharge (mheap m) p \<and>
         weightedMean FarCharge (mheap m) p \<le> 1"
proof -
  let ?h = "mheap m"
  let ?xs = "participants ?h p"
  have step: "mheap (mergeStep (i, p) m) (mnext m) = mergedParticle p ?h"
    "addList (mergeStep (i, p) m) = addList m @ [mnext m]"
    using assms(2,3) by (simp_all add: mergeStep_def Let_def)
  have legal: "\<forall>x \<in> set ?xs. 0 < val (Mass (?h x)) \<and>
      - 1 \<le> val (CloseCharge (?h x)) \<and> val (CloseCharge (?h x)) \<le> 1"
    "\<forall>x \<in> set ?xs. 0 < val (Mass (?h x)) \<and>
      0 \<le> val (FarCharge (?h x)) \<and> val (FarCharge (?h x)) \<le> 1"
    using assms(1) by (simp_all add: legalParticle_def)
  have pos: "0 < totalMass ?h p"
  proof -
    have "0 < val (Mass (?h p))" using assms(1) by (simp add: participants_def legalParticle_def)
    moreover have "0 \<le> (\<Sum>x\<leftarrow>MergingWith (?h p). val (Mass (?h x)))"
      using assms(1) by (intro sum_list_masses_nonneg) (simp add: participants_def legalParticle_def)
    ultimately show ?thesis by (simp add: totalMass_def participants_def)
  qed
  have cb: "- 1 \<le> weightedMean CloseCharge ?h p \<and> weightedMean CloseCharge ?h p \<le> 1"
    using weighted_sum_bounds [OF legal(1)] pos
    by (simp add: weightedMean_def totalMass_def pos_le_divide_eq pos_divide_le_eq)
  have fb: "0 \<le> weightedMean FarCharge ?h p \<and> weightedMean FarCharge ?h p \<le> 1"
    using weighted_sum_bounds [OF legal(2)] pos
    by (simp add: weightedMean_def totalMass_def pos_le_divide_eq pos_divide_le_eq)
  have sums: "amass (aggregateCluster p ?h) = Fin (totalMass ?h p)"
    "acloseCharge (aggregateCluster p ?h) =
       Fin (\<Sum>x\<leftarrow>?xs. val (CloseCharge (?h x)) * val (Mass (?h x)))"
    "afarCharge (aggregateCluster p ?h) =
       Fin (\<Sum>x\<leftarrow>?xs. val (FarCharge (?h x)) * val (Mass (?h x)))"
    using aggregate_sums [OF assms(1)] by simp_all
  have cc: "CloseCharge (mergedParticle p ?h) = Fin (weightedMean CloseCharge ?h p)"
    using cb pos unfolding mergedParticle_CloseCharge sums
    by (simp add: weightedMean_def)
  have fc: "FarCharge (mergedParticle p ?h) = Fin (weightedMean FarCharge ?h p)"
    using fb pos unfolding mergedParticle_FarCharge sums
    by (simp add: weightedMean_def)
  show ?thesis
    using step cc fc cb fb by (simp add: mergedParticle_Mass sums)
qed

theorem merge_conserves_mass_and_averages_charges_witness:
  "participants (mheap (noMerge mergingHeap 2)) 0 = [0, 1] \<and>
   legalParticle (mheap (noMerge mergingHeap 2) 0) \<and>
   legalParticle (mheap (noMerge mergingHeap 2) 1) \<and>
   merging (mheap (noMerge mergingHeap 2) 0) \<and>
   MergingWith (mheap (noMerge mergingHeap 2) 0) \<noteq> [] \<and>
   Mass (mheap (mergeStep (0, 0) (noMerge mergingHeap 2)) 2) = Fin 40 \<and>
   CloseCharge (mheap (mergeStep (0, 0) (noMerge mergingHeap 2)) 2) = Fin (2 / 5) \<and>
   FarCharge (mheap (mergeStep (0, 0) (noMerge mergingHeap 2)) 2) = Fin (19 / 40)"
proof -
  have hp: "mheap (noMerge mergingHeap 2) = mergingHeap" "mnext (noMerge mergingHeap 2) = 2"
    by (simp_all add: noMerge_def)
  have ps: "participants mergingHeap 0 = [0, 1]"
    by (simp add: participants_def mergingHeap_def)
  have legal: "\<forall>x \<in> set (participants (mheap (noMerge mergingHeap 2)) 0).
      legalParticle (mheap (noMerge mergingHeap 2) x)"
    unfolding hp ps
    by (simp add: legalParticle_def mergingHeap_def heavy_fields light_fields)
  have mg: "merging (mheap (noMerge mergingHeap 2) 0)"
    "MergingWith (mheap (noMerge mergingHeap 2) 0) \<noteq> []"
    unfolding hp by (simp_all add: mergingHeap_def)
  have tm: "totalMass mergingHeap 0 = 40"
    by (simp add: totalMass_def ps) (simp add: mergingHeap_def heavy_fields light_fields)
  have wc: "weightedMean CloseCharge mergingHeap 0 = 2 / 5"
    by (simp add: weightedMean_def tm ps) (simp add: mergingHeap_def heavy_fields light_fields)
  have wf: "weightedMean FarCharge mergingHeap 0 = 19 / 40"
    by (simp add: weightedMean_def tm ps) (simp add: mergingHeap_def heavy_fields light_fields)
  from merge_conserves_mass_and_averages_charges [OF legal mg, of 0] legal mg
  show ?thesis unfolding hp by (simp add: tm wc wf ps)
qed

section \<open>C6: the sort of the roster\<close>

lemma mset_insertBy: "mset (insertBy lt x ys) = add_mset x (mset ys)"
  by (induction ys) simp_all

lemma mset_insertionSort: "mset (insertionSort lt xs) = mset xs"
  by (induction xs) (simp_all add: insertionSort_def mset_insertBy)

lemma permutes_insertionSort: "permutes insertionSort"
  by (simp add: permutes_def mset_insertionSort)

lemma permutes_set: "permutes srt \<Longrightarrow> set (srt lt xs) = set xs"
  by (metis permutes_def set_mset_mset)

text \<open>
  C6 (as amended). Whatever \<^verbatim>\<open>sort.Slice\<close> returns within its contract for the
  \<^verbatim>\<open>less\<close> of the tick, it is the roster rearranged with the greater masses first:
  of two positions, the earlier holds a particle whose mass is at least that of the
  later, provided no mass is not-a-number. Nothing is said about the order of
  particles of equal mass.
\<close>

theorem sort_orders_by_descending_mass:
  assumes "sortSliceContract (massGreater h) xs ys"
    and "\<forall>x \<in> set xs. \<not> isNaN (Mass (h x))"
  shows "mset ys = mset xs \<and>
         (\<forall>i j. i < j \<and> j < length ys \<longrightarrow> f_ge (Mass (h (ys ! i))) (Mass (h (ys ! j))))"
proof -
  have perm: "mset ys = mset xs"
    and srt: "sorted_wrt (\<lambda>a b. \<not> massGreater h b a) ys"
    using assms(1) by (simp_all add: sortSliceContract_def)
  have "f_ge (Mass (h (ys ! i))) (Mass (h (ys ! j)))" if "i < j" "j < length ys" for i j
  proof -
    have "ys ! i \<in> set xs" "ys ! j \<in> set xs"
      using that perm by (metis mset_eq_setD nth_mem order.strict_trans)+
    then have "\<not> isNaN (Mass (h (ys ! i)))" "\<not> isNaN (Mass (h (ys ! j)))"
      using assms(2) by simp_all
    moreover have "\<not> massGreater h (ys ! j) (ys ! i)"
      using srt that by (simp add: sorted_wrt_iff_nth_less)
    ultimately show ?thesis by (simp add: f_ge_def massGreater_def f_gt_def)
  qed
  then show ?thesis using perm by simp
qed

theorem sort_orders_by_descending_mass_witness:
  "sortSliceContract (massGreater twoHeap) [1, 0] [0, 1] \<and>
   \<not> isNaN (Mass (twoHeap 0)) \<and> \<not> isNaN (Mass (twoHeap 1)) \<and>
   mset [0, 1 :: addr] = mset [1, 0] \<and>
   f_ge (Mass (twoHeap ([0, 1] ! 0))) (Mass (twoHeap ([0, 1] ! 1)))"
proof -
  have c: "sortSliceContract (massGreater twoHeap) [1, 0] [0, 1]"
    by (simp add: sortSliceContract_def massGreater_def f_gt_def twoHeap_def
        heavy_fields light_fields)
  have n: "\<forall>x \<in> set [1, 0]. \<not> isNaN (Mass (twoHeap x))"
    by (simp add: twoHeap_def heavy_fields light_fields)
  have "f_ge (Mass (twoHeap ([0, 1] ! 0))) (Mass (twoHeap ([0, 1] ! 1)))"
    using sort_orders_by_descending_mass [OF c n, THEN conjunct2, rule_format, of 0 1]
    by simp
  with c n show ?thesis by simp
qed

text \<open>
  C6 as stated fails: the contract of \<^verbatim>\<open>sort.Slice\<close> admits, for a roster of two
  particles of the same mass, the result in which they have changed places.
\<close>

theorem sort_may_swap_equal_masses:
  "Mass (twinHeap 0) = Mass (twinHeap 1) \<and>
   sortSliceContract (massGreater twinHeap) [0, 1] [1, 0] \<and>
   \<not> keepsEqualsInOrder (massGreater twinHeap) [0, 1] [1, 0]"
  by (simp add: sortSliceContract_def keepsEqualsInOrder_def massGreater_def f_gt_def
      twinHeap_def twinA_fields twinB_fields)

section \<open>What a tick does to merge state and history\<close>

subsection \<open>The merge pass\<close>

lemma shrinks_refl: "shrinks p p"
proof -
  have "p = p\<lparr>MergingWith := MergingWith p, merging := merging p\<rparr>" by simp
  then show ?thesis unfolding shrinks_def by blast
qed

lemma shrinks_trans: "shrinks p p' \<Longrightarrow> shrinks p' p'' \<Longrightarrow> shrinks p p''"
  unfolding shrinks_def
  by (elim exE conjE) (rule_tac x = la in exI, rule_tac x = mga in exI, auto)

lemma shrinks_facts:
  assumes "shrinks p p'"
  shows "histView p' = histView p" "pendingOK p \<Longrightarrow> pendingOK p'"
    "\<not> merging p \<Longrightarrow> \<not> merging p'" "clean p \<Longrightarrow> clean p'"
  using assms by (auto simp: shrinks_def histView_def pendingOK_def clean_def)

lemma fold_pres:
  "(\<And>x s. x \<in> set xs \<Longrightarrow> I s \<Longrightarrow> I (f x s)) \<Longrightarrow> I s \<Longrightarrow> I (fold f xs s)"
  by (induction xs arbitrary: s) simp_all

lemma absorb_shrinks: "shrinks (aheap a x) (aheap (absorb p q a) x)"
proof (cases "x = q")
  case True
  have "aheap (absorb p q a) q =
      (aheap a q)\<lparr>MergingWith := mapDelete p (MergingWith (aheap a q)), merging := merging (aheap a q)\<rparr>"
    by (simp add: absorb_def Let_def)
  moreover have "set (mapDelete p (MergingWith (aheap a q))) \<subseteq> set (MergingWith (aheap a q))"
    by (auto simp: mapDelete_def)
  ultimately show ?thesis unfolding shrinks_def True by blast
next
  case False
  then have "aheap (absorb p q a) x = aheap a x" by (simp add: absorb_def Let_def)
  then show ?thesis by (simp add: shrinks_refl)
qed

lemma fold_absorb_shrinks: "shrinks (aheap a x) (aheap (fold (absorb p) qs a) x)"
proof (induction qs arbitrary: a)
  case Nil
  show ?case by (simp add: shrinks_refl)
next
  case (Cons q qs)
  show ?case using shrinks_trans [OF absorb_shrinks Cons.IH] by simp
qed

lemma aggregateCluster_shrinks: "shrinks (h x) (aheap (aggregateCluster p h) x)"
  using fold_absorb_shrinks [of "\<lparr>aheap = h, amass = Mass (h p),
        acloseCharge = f_mul (CloseCharge (h p)) (Mass (h p)),
        afarCharge = f_mul (FarCharge (h p)) (Mass (h p)),
        aposition = Scale (Position (h p)) (Mass (h p)),
        avelocity = Velocity (h p)\<rparr>" x p "MergingWith (h p)"]
  by (simp add: aggregateCluster_def)

lemma mergedParticle_clean: "clean (mergedParticle p h)"
  by (simp add: clean_def mergedParticle_def Let_def NewParticle_fields SetVelocity_def
      SetTrackHistory_def SetHistorySize_def SetPositionHistory_def)

lemma mergedParticle_histView: "histView (mergedParticle p h) = histView (h p)"
proof -
  have "histView (mergedParticle p h) = histView (aheap (aggregateCluster p h) p)"
    by (simp add: histView_def mergedParticle_def Let_def NewParticle_fields SetVelocity_def
      SetTrackHistory_def SetHistorySize_def SetPositionHistory_def)
  then show ?thesis using shrinks_facts(1) [OF aggregateCluster_shrinks] by simp
qed

lemma mergeStep_cases:
  "mergeStep (i, p) m =
     (if merging (mheap m p)
      then (if MergingWith (mheap m p) \<noteq> []
            then m\<lparr>mergeOccurred := True, mergeSource := Some p,
                   mergeMultiple := (if length (MergingWith (mheap m p)) > 1 then True else mergeMultiple m),
                   deleteList := deleteList m @ [i],
                   mheap := (aheap (aggregateCluster p (mheap m))) (mnext m := mergedParticle p (mheap m)),
                   mnext := Suc (mnext m),
                   addList := addList m @ [mnext m],
                   mergedResult := Some (mnext m)\<rparr>
            else m\<lparr>mheap := (mheap m)(p := (mheap m p)\<lparr>merging := False\<rparr>),
                   deleteList := deleteList m @ [i]\<rparr>)
      else m)"
  by (simp add: mergeStep_def Let_def)

lemma mergeStep_shrinks:
  assumes "x \<noteq> mnext m"
  shows "shrinks (mheap m x) (mheap (mergeStep (i, p) m) x)"
proof (cases "merging (mheap m p)")
  case False
  then show ?thesis by (simp add: mergeStep_cases shrinks_refl)
next
  case mg: True
  show ?thesis
  proof (cases "MergingWith (mheap m p) = []")
    case False
    then show ?thesis using mg assms by (simp add: mergeStep_cases aggregateCluster_shrinks)
  next
    case True
    show ?thesis
    proof (cases "x = p")
      case False
      then show ?thesis using mg True by (simp add: mergeStep_cases shrinks_refl)
    next
      case xp: True
      have "mheap (mergeStep (i, p) m) p = (mheap m p)\<lparr>MergingWith := [], merging := False\<rparr>"
        using mg True by (simp add: mergeStep_cases)
      then show ?thesis unfolding shrinks_def xp by (metis empty_set empty_subsetI)
    qed
  qed
qed

lemma mergeStep_next:
  "mnext m \<le> mnext (mergeStep (i, p) m)"
  by (simp add: mergeStep_cases)

lemma mergeAll_snoc: "mergeAll (ps @ [p]) h n = mergeStep (length ps, p) (mergeAll ps h n)"
  by (simp add: mergeAll_def enumerate_append_eq)

lemma mergeInv_start: "mergeInv [] h n (noMerge h n)"
  by (simp add: mergeInv_def noMerge_def shrinks_refl)

lemma mergeInv_step:
  assumes inv: "mergeInv ps h n m" and pn: "p < n" and psn: "\<forall>a \<in> set ps. a < n"
  shows "mergeInv (ps @ [p]) h n (mergeStep (length ps, p) m)"
proof -
  let ?m = "mergeStep (length ps, p) m"
  from inv have nm: "n \<le> mnext m" and al: "set (addList m) \<subseteq> {n..<mnext m}"
    and sh: "\<forall>x<n. shrinks (h x) (mheap m x)"
    and ad: "\<forall>a \<in> set (addList m). clean (mheap m a) \<and>
        (\<exists>p \<in> set ps. histView (mheap m a) = histView (h p))"
    and dl: "sorted (deleteList m)" "distinct (deleteList m)" "set (deleteList m) \<subseteq> {..<length ps}"
    and nd: "\<forall>j<length ps. j \<notin> set (deleteList m) \<longrightarrow> \<not> merging (mheap m (ps ! j))"
    by (simp_all add: mergeInv_def)
  have step: "\<And>x. x \<noteq> mnext m \<Longrightarrow> shrinks (mheap m x) (mheap ?m x)"
    by (rule mergeStep_shrinks)
  have 1: "n \<le> mnext ?m" using nm mergeStep_next [of m "length ps" p] by simp
  have addl: "addList ?m = addList m \<and> mnext ?m = mnext m \<or>
      addList ?m = addList m @ [mnext m] \<and> mnext ?m = Suc (mnext m) \<and>
      mheap ?m (mnext m) = mergedParticle p (mheap m)"
    by (simp add: mergeStep_cases)
  have 2: "set (addList ?m) \<subseteq> {n..<mnext ?m}"
    using addl al nm by auto
  have 3: "\<forall>x<n. shrinks (h x) (mheap ?m x)"
  proof (intro allI impI)
    fix x assume "x < n"
    then have "x \<noteq> mnext m" using nm by simp
    from shrinks_trans [OF sh [rule_format, OF \<open>x < n\<close>] step [OF this]]
    show "shrinks (h x) (mheap ?m x)" .
  qed
  have 4: "\<forall>a \<in> set (addList ?m). clean (mheap ?m a) \<and>
        (\<exists>q \<in> set (ps @ [p]). histView (mheap ?m a) = histView (h q))"
  proof
    fix a assume a: "a \<in> set (addList ?m)"
    show "clean (mheap ?m a) \<and> (\<exists>q \<in> set (ps @ [p]). histView (mheap ?m a) = histView (h q))"
    proof (cases "a \<in> set (addList m)")
      case True
      then have "a \<noteq> mnext m" using al by auto
      from step [OF this] ad [rule_format, OF True] show ?thesis
        by (auto simp: shrinks_facts)
    next
      case False
      with a addl have an: "a = mnext m" and mp: "mheap ?m (mnext m) = mergedParticle p (mheap m)"
        by auto
      have "histView (mheap m p) = histView (h p)"
        using sh pn by (simp add: shrinks_facts(1))
      then show ?thesis
        by (simp add: an mp mergedParticle_clean mergedParticle_histView)
    qed
  qed
  have dle: "deleteList ?m = deleteList m \<and> \<not> merging (mheap m p) \<or>
      deleteList ?m = deleteList m @ [length ps]"
    by (simp add: mergeStep_cases)
  have below: "\<forall>x \<in> set (deleteList m). x < length ps \<and> x \<le> length ps \<and> x < Suc (length ps)"
    using dl(3) by auto
  have 5: "sorted (deleteList ?m)" "distinct (deleteList ?m)"
    "set (deleteList ?m) \<subseteq> {..<length (ps @ [p])}"
    using dle dl below by (auto simp: sorted_append)
  have 6: "\<forall>j<length (ps @ [p]). j \<notin> set (deleteList ?m) \<longrightarrow>
      \<not> merging (mheap ?m ((ps @ [p]) ! j))"
  proof (intro allI impI)
    fix j assume j: "j < length (ps @ [p])" and nj: "j \<notin> set (deleteList ?m)"
    show "\<not> merging (mheap ?m ((ps @ [p]) ! j))"
    proof (cases "j < length ps")
      case True
      then have "j \<notin> set (deleteList m)" using nj dle by auto
      then have nmg: "\<not> merging (mheap m (ps ! j))" using nd True by simp
      have "ps ! j < n" using psn True by simp
      then have "ps ! j \<noteq> mnext m" using nm by simp
      from shrinks_facts(3) [OF step [OF this] nmg] show ?thesis
        using True by (simp add: nth_append)
    next
      case False
      then have jl: "j = length ps" using j by simp
      then have "\<not> merging (mheap m p)" using nj dle by auto
      then show ?thesis by (simp add: jl mergeStep_cases)
    qed
  qed
  show ?thesis
    unfolding mergeInv_def using 1 2 3 4 5 6 by blast
qed

lemma mergeAll_inv: "\<forall>a \<in> set ps. a < n \<Longrightarrow> mergeInv ps h n (mergeAll ps h n)"
proof (induction ps rule: rev_induct)
  case Nil
  show ?case by (simp add: mergeAll_def mergeInv_start)
next
  case (snoc p ps)
  then show ?case by (simp add: mergeAll_snoc mergeInv_step)
qed

lemma removeIndices_subset:
  "removeIndices ds ps = Some ps' \<Longrightarrow> set ps' \<subseteq> set ps"
proof (induction ds arbitrary: ps)
  case Nil
  then show ?case by simp
next
  case (Cons d ds)
  then have d: "d < length ps" and r: "removeIndices ds (butlast (ps[d := last ps])) = Some ps'"
    by (simp_all split: if_splits)
  have "ps \<noteq> []" using d by auto
  then have "set (butlast (ps[d := last ps])) \<subseteq> set ps"
    by (meson in_set_butlastD last_in_set set_update_subsetI subsetI subset_trans)
  with Cons.IH [OF r] show ?case by blast
qed

lemma removeIndices_decreasing:
  assumes "sorted_wrt (>) ds" "\<forall>d \<in> set ds. d < length ps"
  shows "\<exists>ps'. removeIndices ds ps = Some ps' \<and>
           set ps' \<subseteq> {ps ! j | j. j < length ps \<and> j \<notin> set ds}"
  using assms
proof (induction ds arbitrary: ps)
  case Nil
  then show ?case by (auto simp: in_set_conv_nth)
next
  case (Cons d ds)
  let ?qs = "butlast (ps[d := last ps])"
  have d: "d < length ps" and lt: "\<forall>e \<in> set ds. e < d" and sd: "sorted_wrt (>) ds"
    using Cons.prems by auto
  have len: "length ?qs = length ps - 1" by simp
  have "\<forall>e \<in> set ds. e < length ?qs" using lt d by auto
  from Cons.IH [OF sd this] obtain ps' where
    r: "removeIndices ds ?qs = Some ps'" and
    s: "set ps' \<subseteq> {?qs ! j | j. j < length ?qs \<and> j \<notin> set ds}" by blast
  have "?qs ! j \<in> {ps ! j | j. j < length ps \<and> j \<notin> set (d # ds)}"
    if j: "j < length ?qs" "j \<notin> set ds" for j
  proof (cases "j = d")
    case False
    have "?qs ! j = ps ! j" using j False by (simp add: nth_butlast)
    moreover have "j < length ps" using j by simp
    ultimately show ?thesis using False j(2) by auto
  next
    case True
    have ne: "ps \<noteq> []" using d by auto
    have "?qs ! j = last ps" using j True d by (simp add: nth_butlast)
    then have q: "?qs ! j = ps ! (length ps - 1)" using ne by (simp add: last_conv_nth)
    have "d < length ps - 1" using j True by simp
    then have "length ps - 1 \<notin> set (d # ds)" using lt by auto
    moreover have "length ps - 1 < length ps" using ne by simp
    ultimately show ?thesis using q by blast
  qed
  then have "{?qs ! j | j. j < length ?qs \<and> j \<notin> set ds} \<subseteq>
      {ps ! j | j. j < length ps \<and> j \<notin> set (d # ds)}" by blast
  with s r d show ?case by auto
qed

lemma sortDecreasing_sorted:
  "sorted ds \<Longrightarrow> distinct ds \<Longrightarrow> sortDecreasing ds = rev ds \<and> sorted_wrt (>) (rev ds)"
proof -
  assume s: "sorted ds" and d: "distinct ds"
  have "sort ds = ds" using s by (simp add: sorted_sort_id)
  moreover have "sorted_wrt (<) ds" using s d by (simp add: strict_sorted_iff)
  then have "sorted_wrt (>) (rev ds)" by (simp add: sorted_wrt_rev)
  ultimately show ?thesis by (simp add: sortDecreasing_def)
qed

subsection \<open>Forces, positions and walls\<close>

lemma pairStep_heap:
  "lheap (pairStep eng p q s) = lheap s \<or>
   lheap (pairStep eng p q s) = (lheap s)(p := (lheap s p)\<lparr>bouncing := False\<rparr>) \<or>
   lheap (pairStep eng p q s) = collide eng p q (lheap s)"
  by (simp add: pairStep_def Let_def accumulate_def)

lemma force_pres:
  assumes c: "\<And>p q h. Q (h x) \<Longrightarrow> Q (collide eng p q h x)"
    and b: "\<And>P. Q P \<Longrightarrow> Q (P\<lparr>bouncing := False\<rparr>)"
    and v: "\<And>P u. Q P \<Longrightarrow> Q (SetVelocity u P)"
  shows "Q (h x) \<Longrightarrow> Q (updateParticleVelocities eng ps h x)"
proof -
  have pair: "Q (lheap (pairStep eng p q s) x)" if "Q (lheap s x)" for p q s
    using pairStep_heap [of eng p q s] that c [of "lheap s" p q] b [of "lheap s p"]
    by (cases "x = p") auto
  have inner: "Q (lheap (fold (pairStep eng p) qs s) x)" if "Q (lheap s x)" for p qs s
    using that by (induction qs arbitrary: s) (simp_all add: pair)
  have outer: "Q (particleStep eng qs p h' x)" if "Q (h' x)" for p qs h'
  proof -
    let ?s = "fold (pairStep eng p) qs \<lparr>lheap = h', gAcc = vzero, cAcc = vzero, fAcc = vzero, ct = 0\<rparr>"
    have q: "Q (lheap ?s x)" using inner [of "\<lparr>lheap = h', gAcc = vzero, cAcc = vzero, fAcc = vzero, ct = 0\<rparr>" p qs] that by simp
    show ?thesis
    proof (cases "x = p")
      case True
      then show ?thesis using q v by (simp add: particleStep_def Let_def)
    next
      case False
      then show ?thesis using q by (simp add: particleStep_def Let_def)
    qed
  qed
  have "Q (fold (particleStep eng qs) ps h' x)" if "Q (h' x)" for qs h'
    using that by (induction ps arbitrary: h') (simp_all add: outer)
  then show "Q (h x) \<Longrightarrow> Q (updateParticleVelocities eng ps h x)"
    unfolding updateParticleVelocities_def by simp
qed

lemma collide_histView: "histView (collide eng p q h x) = histView (h x)"
  by (cases "mergeCondition eng (h p) (h q)")
     (auto simp: collide_when_merge collide_when_bounce histView_def SetVelocity_def)

lemma collide_pendingOK: "pendingOK (h x) \<Longrightarrow> pendingOK (collide eng p q h x)"
  by (cases "mergeCondition eng (h p) (h q)")
     (auto simp: collide_when_merge collide_when_bounce pendingOK_def SetVelocity_def)

lemma collide_no_merge:
  "\<not> AllowMerge eng \<Longrightarrow> clean (h x) \<Longrightarrow> clean (collide eng p q h x)"
proof -
  assume "\<not> AllowMerge eng"
  then have "\<not> mergeCondition eng (h p) (h q)" by (simp add: mergeCondition_def)
  then show "clean (h x) \<Longrightarrow> clean (collide eng p q h x)"
    by (auto simp: collide_when_bounce clean_def SetVelocity_def)
qed

lemma force_histView: "histView (updateParticleVelocities eng ps h x) = histView (h x)"
  by (rule force_pres [where Q = "\<lambda>P. histView P = histView (h x)"])
     (simp_all add: collide_histView, simp_all add: histView_def SetVelocity_def)

lemma force_pendingOK: "pendingOK (h x) \<Longrightarrow> pendingOK (updateParticleVelocities eng ps h x)"
  by (rule force_pres [where Q = pendingOK])
     (simp_all add: collide_pendingOK, simp_all add: pendingOK_def SetVelocity_def)

lemma force_clean_no_merge:
  "\<not> AllowMerge eng \<Longrightarrow> clean (h x) \<Longrightarrow> clean (updateParticleVelocities eng ps h x)"
  by (rule force_pres [where Q = clean])
     (simp_all add: collide_no_merge, simp_all add: clean_def SetVelocity_def)

lemma forEach_Cons: "forEach m (p # ps) h = forEach m ps (h(p := m (h p)))"
  by (simp add: forEach_def)

lemma forEach_pres:
  assumes "\<And>P. Q P \<Longrightarrow> Q (m P)"
  shows "Q (h a) \<Longrightarrow> Q (forEach m ps h a)"
proof (induction ps arbitrary: h)
  case Nil
  then show ?case by (simp add: forEach_def)
next
  case (Cons p ps)
  have "Q ((h(p := m (h p))) a)" using Cons.prems assms by auto
  from Cons.IH [of "h(p := m (h p))"] this show ?case by (simp only: forEach_Cons)
qed



lemma UpdatePosition_merge_fields:
  "merging (UpdatePosition P) = merging P" "MergingWith (UpdatePosition P) = MergingWith P"
  by (simp_all add: UpdatePosition_def Let_def SetPosition_def)

lemma wallStep_fields:
  "merging (wallStep eng P) = merging P" "MergingWith (wallStep eng P) = MergingWith P"
  "histView (wallStep eng P) = histView P" "Radius (wallStep eng P) = Radius P"
  by (simp_all add: wallStep_def Let_def SetVelocity_def histView_def)

lemma positions_pendingOK: "pendingOK (h x) \<Longrightarrow> pendingOK (updateParticlePositions ps h x)"
  unfolding updateParticlePositions_def
  by (rule forEach_pres [where Q = pendingOK]) (simp_all add: pendingOK_def UpdatePosition_merge_fields)

lemma positions_clean: "clean (h x) \<Longrightarrow> clean (updateParticlePositions ps h x)"
  unfolding updateParticlePositions_def
  by (rule forEach_pres [where Q = clean]) (simp_all add: clean_def UpdatePosition_merge_fields)

lemma walls_clean: "clean (heap w x) \<Longrightarrow> clean (heap (wallBounceAll w) x)"
proof -
  assume c: "clean (heap w x)"
  have "clean (forEach (wallStep (Engine w)) (Particles (Engine w)) (heap w) x)"
    using c by (rule forEach_pres [where Q = clean, rotated]) (simp add: clean_def wallStep_fields)
  then show ?thesis using c by (simp add: wallBounceAll_def)
qed

lemma walls_frame:
  "Particles (Engine (wallBounceAll w)) = Particles (Engine w)"
  "nextAddr (wallBounceAll w) = nextAddr w"
  by (simp_all add: wallBounceAll_def)

lemma handleMergers_clean:
  assumes wf: "\<forall>a \<in> set ps. a < n"
    and pend: "\<forall>a \<in> set ps. pendingOK (h a)"
    and cl: "\<not> AllowMerge eng \<longrightarrow> (\<forall>a \<in> set ps. clean (h a))"
  shows "\<exists>m ps2. handleMergers eng ps h n = Some (m, ps2) \<and>
           (\<forall>a \<in> set ps2. a < mnext m \<and> clean (mheap m a))"
proof (cases "AllowMerge eng")
  case False
  then show ?thesis using cl wf by (simp add: handleMergers_def noMerge_def)
next
  case True
  let ?m = "mergeAll ps h n"
  have inv: "mergeInv ps h n ?m" by (rule mergeAll_inv [OF wf])
  then have nm: "n \<le> mnext ?m" and al: "set (addList ?m) \<subseteq> {n..<mnext ?m}"
    and sh: "\<forall>x<n. shrinks (h x) (mheap ?m x)"
    and ad: "\<forall>a \<in> set (addList ?m). clean (mheap ?m a)"
    and dl: "sorted (deleteList ?m)" "distinct (deleteList ?m)" "set (deleteList ?m) \<subseteq> {..<length ps}"
    and nd: "\<forall>j<length ps. j \<notin> set (deleteList ?m) \<longrightarrow> \<not> merging (mheap ?m (ps ! j))"
    by (simp_all add: mergeInv_def)
  have sd: "sortDecreasing (deleteList ?m) = rev (deleteList ?m)"
    "sorted_wrt (>) (rev (deleteList ?m))"
    using sortDecreasing_sorted [OF dl(1,2)] by simp_all
  have "\<forall>d \<in> set (rev (deleteList ?m)). d < length ps" using dl(3) by auto
  from removeIndices_decreasing [OF sd(2) this] obtain ps' where
    r: "removeIndices (rev (deleteList ?m)) ps = Some ps'" and
    s: "set ps' \<subseteq> {ps ! j | j. j < length ps \<and> j \<notin> set (rev (deleteList ?m))}" by blast
  have "a < mnext ?m \<and> clean (mheap ?m a)" if "a \<in> set ps'" for a
  proof -
    from s that obtain j where j: "a = ps ! j" "j < length ps" "j \<notin> set (deleteList ?m)"
      by auto
    then have ain: "a \<in> set ps" by simp
    then have an: "a < n" using wf by simp
    have "\<not> merging (mheap ?m a)" using nd j by simp
    moreover have "pendingOK (mheap ?m a)"
      using shrinks_facts(2) [OF sh [rule_format, OF an]] pend ain by simp
    ultimately show ?thesis using an nm by (auto simp: clean_def pendingOK_def)
  qed
  moreover have "a < mnext ?m \<and> clean (mheap ?m a)" if "a \<in> set (addList ?m)" for a
    using that al ad by auto
  ultimately have "\<forall>a \<in> set (ps' @ addList ?m). a < mnext ?m \<and> clean (mheap ?m a)"
    by auto
  then show ?thesis using True r by (simp add: handleMergers_def Let_def sd(1))
qed

section \<open>Wall bounce\<close>












lemma mainEngine:
  "Engine (sim mainState) =
     \<lparr>GravityStrength = Fin 15, CloseChargeStrength = Fin 150000000, FarChargeStrength = Fin (15 / 2),
      EnvironmentSize = 800, AllowMerge = True, WallBounce = True,
      bounceCompleteDistFactor = Fin (3 / 2), mergeMassRatioThreshold = Fin (5 / 2),
      mergeCloseChargeThreshold = Fin (1 / 4), Particles = [], initialParticles = []\<rparr>"
  by (simp add: mainState_def Initialize_def zeroEngine_def)





section \<open>The history never exceeds its size\<close>

subsection \<open>One tick\<close>

lemma histOK_histView: "histView p = histView p' \<Longrightarrow> histOK k p = histOK k p'"
  by (simp add: histView_def histOK_def)

lemma histOK_nonneg: "histOK k p \<Longrightarrow> 0 \<le> k"
  by (auto simp: histOK_def)

lemma UpdatePosition_histOK: "histOK k p \<Longrightarrow> histOK k (UpdatePosition p)"
  by (auto simp: UpdatePosition_def histOK_def Let_def SetPosition_def)

lemma handleMergers_hist:
  assumes wf: "\<forall>a \<in> set ps. a < n"
    and ok: "\<forall>a \<in> set ps. histOK k (h a)"
    and hm: "handleMergers eng ps h n = Some (m, ps2)"
  shows "\<forall>a \<in> set ps2. a < mnext m \<and> histOK k (mheap m a)"
proof (cases "AllowMerge eng")
  case False
  then show ?thesis using hm wf ok by (auto simp: handleMergers_def noMerge_def)
next
  case True
  have "map_option (\<lambda>ps'. (mergeAll ps h n, ps' @ addList (mergeAll ps h n)))
          (removeIndices (sortDecreasing (deleteList (mergeAll ps h n))) ps) = Some (m, ps2)"
    using hm True by (simp add: handleMergers_def Let_def)
  then obtain ps' where r0: "removeIndices (sortDecreasing (deleteList (mergeAll ps h n))) ps = Some ps'"
    and e: "(mergeAll ps h n, ps' @ addList (mergeAll ps h n)) = (m, ps2)"
    unfolding map_option_eq_Some by blast
  from e have me: "mergeAll ps h n = m" by blast
  from e have p2: "ps2 = ps' @ addList m" by auto
  from r0 have r: "removeIndices (sortDecreasing (deleteList m)) ps = Some ps'" by (simp only: me)
  have inv: "mergeInv ps h n m" using mergeAll_inv [OF wf, of h] by (simp only: me)
  then have nm: "n \<le> mnext m" and al: "set (addList m) \<subseteq> {n..<mnext m}"
    and sh: "\<forall>x<n. shrinks (h x) (mheap m x)"
    and ad: "\<forall>a \<in> set (addList m). \<exists>p \<in> set ps. histView (mheap m a) = histView (h p)"
    by (simp_all add: mergeInv_def)
  have sub: "set ps' \<subseteq> set ps" by (rule removeIndices_subset [OF r])
  have "a < mnext m \<and> histOK k (mheap m a)" if "a \<in> set ps'" for a
  proof -
    have ain: "a \<in> set ps" using that sub by auto
    then have an: "a < n" using wf by simp
    have "histView (mheap m a) = histView (h a)"
      using shrinks_facts(1) [OF sh [rule_format, OF an]] .
    from histOK_histView [OF this, of k] show ?thesis using ok ain an nm by simp
  qed
  moreover have "a < mnext m \<and> histOK k (mheap m a)" if "a \<in> set (addList m)" for a
  proof -
    from ad that obtain p where p: "p \<in> set ps" "histView (mheap m a) = histView (h p)" by blast
    from histOK_histView [OF p(2), of k] show ?thesis using ok al that p(1) by auto
  qed
  ultimately show ?thesis unfolding p2 by auto
qed

lemma walls_histOK: "histOK k (heap w x) \<Longrightarrow> histOK k (heap (wallBounceAll w) x)"
proof -
  assume c: "histOK k (heap w x)"
  have "histOK k (forEach (wallStep (Engine w)) (Particles (Engine w)) (heap w) x)"
    using c by (rule forEach_pres [where Q = "histOK k", rotated])
      (simp add: histOK_histView [OF wallStep_fields(3)])
  then show ?thesis using c by (simp add: wallBounceAll_def)
qed

lemma UpdateParticles_Some:
  assumes "UpdateParticles srt w = Some (r, w')"
  shows "\<exists>m ps2.
     handleMergers (Engine w)
       (srt (massGreater (updateParticlePositions (Particles (Engine w))
               (updateParticleVelocities (Engine w) (Particles (Engine w)) (heap w))))
          (Particles (Engine w)))
       (updateParticlePositions (Particles (Engine w))
          (updateParticleVelocities (Engine w) (Particles (Engine w)) (heap w)))
       (nextAddr w) = Some (m, ps2) \<and>
     w' = wallBounceAll (w\<lparr>heap := mheap m, nextAddr := mnext m,
                            Engine := (Engine w)\<lparr>Particles := ps2\<rparr>\<rparr>)"
proof -
  from assms obtain x where bw: "beforeWalls srt w = Some x" and x: "wallBounceAll (snd x) = w'"
    unfolding UpdateParticles_def map_option_eq_Some by auto
  from bw obtain y where hm: "handleMergers (Engine w)
       (srt (massGreater (updateParticlePositions (Particles (Engine w))
               (updateParticleVelocities (Engine w) (Particles (Engine w)) (heap w))))
          (Particles (Engine w)))
       (updateParticlePositions (Particles (Engine w))
          (updateParticleVelocities (Engine w) (Particles (Engine w)) (heap w)))
       (nextAddr w) = Some y"
    and y: "snd x = w\<lparr>heap := mheap (fst y), nextAddr := mnext (fst y),
                            Engine := (Engine w)\<lparr>Particles := snd y\<rparr>\<rparr>"
    unfolding beforeWalls_def Let_def map_option_eq_Some by auto
  show ?thesis using hm x y by (cases y) auto
qed

lemma tick_histOK:
  assumes "permutes srt"
    and wf: "\<forall>a \<in> set (Particles (Engine w)). a < nextAddr w"
    and ok: "\<forall>a \<in> set (Particles (Engine w)). histOK k (heap w a)"
    and up: "UpdateParticles srt w = Some (r, w')"
  shows "(\<forall>a \<in> set (Particles (Engine w')). a < nextAddr w' \<and> histOK k (heap w' a)) \<and>
         initialParticles (Engine w') = initialParticles (Engine w)"
proof -
  let ?eng = "Engine w"
  let ?ps = "Particles ?eng"
  let ?h1 = "updateParticleVelocities ?eng ?ps (heap w)"
  let ?h2 = "updateParticlePositions ?ps ?h1"
  let ?ps1 = "srt (massGreater ?h2) ?ps"
  have set1: "set ?ps1 = set ?ps" by (rule permutes_set [OF assms(1)])
  have wf1: "\<forall>a \<in> set ?ps1. a < nextAddr w" using wf set1 by simp
  have ok2: "\<forall>a \<in> set ?ps1. histOK k (?h2 a)"
  proof
    fix a assume "a \<in> set ?ps1"
    then have "histOK k (heap w a)" using ok set1 by simp
    then have "histOK k (?h1 a)" using histOK_histView [OF force_histView] by simp
    then show "histOK k (?h2 a)"
      unfolding updateParticlePositions_def
      by (rule forEach_pres [where Q = "histOK k", rotated]) (rule UpdatePosition_histOK)
  qed
  from UpdateParticles_Some [OF up] obtain m ps2 where
    hm: "handleMergers ?eng ?ps1 ?h2 (nextAddr w) = Some (m, ps2)" and
    w': "w' = wallBounceAll (w\<lparr>heap := mheap m, nextAddr := mnext m, Engine := ?eng\<lparr>Particles := ps2\<rparr>\<rparr>)"
    by blast
  let ?w1 = "w\<lparr>heap := mheap m, nextAddr := mnext m, Engine := ?eng\<lparr>Particles := ps2\<rparr>\<rparr>"
  have h: "\<forall>a \<in> set ps2. a < mnext m \<and> histOK k (mheap m a)"
    by (rule handleMergers_hist [OF wf1 ok2 hm])
  have "a < nextAddr w' \<and> histOK k (heap w' a)" if "a \<in> set (Particles (Engine w'))" for a
  proof -
    have a2: "a \<in> set ps2" using that by (simp add: w' walls_frame)
    have "histOK k (heap ?w1 a)" using h a2 by simp
    then have "histOK k (heap w' a)" unfolding w' by (rule walls_histOK)
    then show ?thesis using h a2 by (simp add: w' walls_frame)
  qed
  moreover have "initialParticles (Engine w') = initialParticles (Engine w)"
    by (simp add: w' wallBounceAll_def)
  ultimately show ?thesis by blast
qed

subsection \<open>The event handlers\<close>

lemma forEach_establish:
  assumes pre: "\<And>P. Pre P \<Longrightarrow> Q (m P)" and pres: "\<And>P. Q P \<Longrightarrow> Q (m P)"
  shows "Pre (h a) \<Longrightarrow> a \<in> set ps \<Longrightarrow> Q (forEach m ps h a)"
proof (induction ps arbitrary: h)
  case Nil
  then show ?case by simp
next
  case (Cons p ps)
  show ?case
  proof (cases "a = p")
    case True
    have "Q ((h(p := m (h p))) a)" using True Cons.prems(1) pre by simp
    then have "Q (forEach m ps (h(p := m (h p))) a)"
      by (rule forEach_pres [where Q = Q, rotated]) (rule pres)
    then show ?thesis by (simp only: forEach_Cons)
  next
    case False
    then have "Pre ((h(p := m (h p))) a)" "a \<in> set ps" using Cons.prems by simp_all
    from Cons.IH [of "h(p := m (h p))"] this show ?thesis by (simp only: forEach_Cons)
  qed
qed

lemma allocAll_spec:
  "allocAll xs h n = (cs, h', n') \<Longrightarrow>
     cs = [n..<n + length xs] \<and> n' = n + length xs \<and> (\<forall>a<n. h' a = h a) \<and>
     (\<forall>i<length xs. h' (n + i) = xs ! i)"
proof (induction xs arbitrary: h n cs h' n')
  case Nil
  then show ?case by simp
next
  case (Cons x xs)
  obtain cs1 h1 n1 where rec: "allocAll xs (h(n := x)) (Suc n) = (cs1, h1, n1)"
    by (metis prod_cases3)
  with Cons.prems have eq: "cs = n # cs1" "h' = h1" "n' = n1" by simp_all
  from Cons.IH [OF rec] have ih: "cs1 = [Suc n..<Suc n + length xs]"
    "n1 = Suc n + length xs" "\<forall>a<Suc n. h1 a = (h(n := x)) a"
    "\<forall>i<length xs. h1 (Suc n + i) = xs ! i" by simp_all
  have u: "[n..<n + length (x # xs)] = n # [Suc n..<Suc n + length xs]"
    by (simp add: upt_conv_Cons del: upt_Suc)
  have "h1 (n + i) = (x # xs) ! i" if "i < length (x # xs)" for i
  proof (cases i)
    case 0
    then show ?thesis using ih(3) by simp
  next
    case (Suc j)
    then show ?thesis using ih(4) that by simp
  qed
  then show ?case using eq ih(1,2,3) u by simp
qed

lemma truncateHistory_Some:
  assumes "truncateHistory v p = Some p'"
  shows "histOK v p' \<and>
         positionHistory p' = drop (length (positionHistory p) - nat v) (positionHistory p)"
proof (cases "int (length (positionHistory p)) > v")
  case True
  then have v: "0 \<le> v" and p': "p' = SetHistorySize v
      (SetPositionHistory (drop (length (positionHistory p) - nat v) (positionHistory p)) p)"
    using assms by (auto simp: truncateHistory_def Let_def split: if_splits)
  show ?thesis using True v
    by (simp add: p' histOK_def SetHistorySize_def SetPositionHistory_def)
next
  case False
  then have p': "p' = SetHistorySize v p" using assms by (simp add: truncateHistory_def Let_def)
  have "length (positionHistory p) - nat v = 0" using False by simp
  then show ?thesis using False by (simp add: p' histOK_def SetHistorySize_def)
qed

lemma truncateHistory_again:
  "truncateHistory v p = Some p' \<Longrightarrow> truncateHistory v p' = Some p'"
proof -
  assume a: "truncateHistory v p = Some p'"
  then have "histOK v p'" using truncateHistory_Some by blast
  then show "truncateHistory v p' = Some p'"
    by (simp add: truncateHistory_def histOK_def Let_def SetHistorySize_def)
qed

lemma forEachOpt_truncate:
  "forEachOpt (truncateHistory v) ps h = Some h' \<Longrightarrow>
     (\<forall>p \<in> set ps. truncateHistory v (h p) = Some (h' p)) \<and> (\<forall>p. p \<notin> set ps \<longrightarrow> h' p = h p)"
proof (induction ps arbitrary: h)
  case Nil
  then show ?case by simp
next
  case (Cons q ps)
  from Cons.prems obtain q1 where q1: "truncateHistory v (h q) = Some q1"
    and rest: "forEachOpt (truncateHistory v) ps (h(q := q1)) = Some h'"
    by (auto split: option.splits)
  from Cons.IH [OF rest] have ih: "\<forall>p \<in> set ps. truncateHistory v ((h(q := q1)) p) = Some (h' p)"
    "\<forall>p. p \<notin> set ps \<longrightarrow> h' p = (h(q := q1)) p" by simp_all
  have hq: "h' q = q1"
  proof (cases "q \<in> set ps")
    case True
    then have "truncateHistory v q1 = Some (h' q)" using ih(1) by auto
    then show ?thesis using truncateHistory_again [OF q1] by simp
  next
    case False
    then show ?thesis using ih(2) by simp
  qed
  have "truncateHistory v (h p) = Some (h' p)" if "p \<in> set (q # ps)" for p
  proof (cases "p = q")
    case True
    then show ?thesis using q1 hq by simp
  next
    case False
    then have "p \<in> set ps" using that by simp
    then show ?thesis using ih(1) False by auto
  qed
  moreover have "h' p = h p" if "p \<notin> set (q # ps)" for p
    using that ih(2) by auto
  ultimately show ?case by blast
qed

lemma HistoryTrailLengthChangedEvent_spec:
  assumes "HistoryTrailLengthChangedEvent v a = Some a'"
  shows "roster a' = roster a \<and> nextAddr (sim a') = nextAddr (sim a) \<and> HistoryLength a' = v \<and>
         initialParticles (Engine (sim a')) = initialParticles (Engine (sim a)) \<and>
         (\<forall>p \<in> set (roster a). truncateHistory v (particleAt a p) = Some (particleAt a' p))"
proof -
  from assms obtain h' where
    f: "forEachOpt (truncateHistory v) (roster a) (heap (sim a)) = Some h'"
    and a': "a' = setHeap h' (a\<lparr>HistoryLength := v\<rparr>)"
    unfolding HistoryTrailLengthChangedEvent_def Let_def map_option_eq_Some
    by (auto simp: roster_def)
  from forEachOpt_truncate [OF f] show ?thesis
    by (simp add: a' setHeap_def roster_def particleAt_def)
qed

lemma HistoryTrailChangedEvent_frame:
  "roster (HistoryTrailChangedEvent b a) = roster a"
  "nextAddr (sim (HistoryTrailChangedEvent b a)) = nextAddr (sim a)"
  "HistoryLength (HistoryTrailChangedEvent b a) = HistoryLength a"
  "initialParticles (Engine (sim (HistoryTrailChangedEvent b a))) = initialParticles (Engine (sim a))"
  by (simp_all add: HistoryTrailChangedEvent_def Let_def setHeap_def roster_def)

lemma HistoryTrailChangedEvent_histOK:
  assumes "p \<in> set (roster a)"
    and "int (length (positionHistory (particleAt a p))) \<le> HistoryLength a"
  shows "histOK (HistoryLength a) (particleAt (HistoryTrailChangedEvent b a) p)"
proof -
  let ?m = "\<lambda>P. SetHistorySize (HistoryLength a) (SetTrackHistory b P)"
  have "histOK (HistoryLength a) (forEach ?m (roster a) (heap (sim a)) p)"
    using assms(2,1)
    by (intro forEach_establish [where Q = "histOK (HistoryLength a)"
          and Pre = "\<lambda>P. int (length (positionHistory P)) \<le> HistoryLength a"])
       (simp_all add: histOK_def SetHistorySize_def SetTrackHistory_def particleAt_def)
  then show ?thesis
    by (simp add: HistoryTrailChangedEvent_def Let_def setHeap_def roster_def particleAt_def)
qed

lemma histInv_frame:
  assumes "histInv a" "roster a' = roster a"
    "\<forall>p \<in> set (roster a). particleAt a' p = particleAt a p"
    "nextAddr (sim a') = nextAddr (sim a)" "HistoryLength a' = HistoryLength a"
    "initialParticles (Engine (sim a')) = initialParticles (Engine (sim a))"
  shows "histInv a'"
  using assms by (simp add: histInv_def)

lemma setEngine_frame:
  assumes "\<And>e. Particles (f e) = Particles e" "\<And>e. initialParticles (f e) = initialParticles e"
  shows "histInv a \<Longrightarrow> histInv (setEngine f a)"
  by (rule histInv_frame [where a = a])
     (simp_all add: setEngine_def roster_def particleAt_def assms)

lemma SaveInitialParticleStates_spec:
  "Particles (Engine (SaveInitialParticleStates w)) = Particles (Engine w) \<and>
   nextAddr (SaveInitialParticleStates w) = nextAddr w + length (Particles (Engine w)) \<and>
   (\<forall>a<nextAddr w. heap (SaveInitialParticleStates w) a = heap w a) \<and>
   length (initialParticles (Engine (SaveInitialParticleStates w))) = length (Particles (Engine w))"
proof -
  obtain cs h' n' where c: "cloneAll (Particles (Engine w)) (heap w) (nextAddr w) = (cs, h', n')"
    by (metis prod_cases3)
  from cloneAll_shape [OF c] show ?thesis
    by (simp add: SaveInitialParticleStates_def c)
qed

lemma RestoreInitialParticleStates_spec:
  "Particles (Engine (RestoreInitialParticleStates w)) =
     [nextAddr w..<nextAddr w + length (initialParticles (Engine w))] \<and>
   nextAddr (RestoreInitialParticleStates w) = nextAddr w + length (initialParticles (Engine w)) \<and>
   initialParticles (Engine (RestoreInitialParticleStates w)) = initialParticles (Engine w)"
proof -
  obtain cs h' n' where c: "cloneAll (initialParticles (Engine w)) (heap w) (nextAddr w) = (cs, h', n')"
    by (metis prod_cases3)
  from cloneAll_shape [OF c] show ?thesis
    by (simp add: RestoreInitialParticleStates_def c)
qed

lemma setRoster_spec:
  "roster (setRoster xs a) = [nextAddr (sim a)..<nextAddr (sim a) + length xs] \<and>
   nextAddr (sim (setRoster xs a)) = nextAddr (sim a) + length xs \<and>
   HistoryLength (setRoster xs a) = HistoryLength a \<and>
   HistoryTrail (setRoster xs a) = HistoryTrail a \<and>
   (\<forall>i<length xs. particleAt (setRoster xs a) (nextAddr (sim a) + i) = xs ! i)"
proof -
  obtain cs h' n' where c: "allocAll xs (heap (sim a)) (nextAddr (sim a)) = (cs, h', n')"
    by (metis prod_cases3)
  from allocAll_spec [OF c] show ?thesis
    by (simp add: setRoster_def c roster_def particleAt_def)
qed

lemma established_by_length_event:
  assumes ev: "HistoryTrailLengthChangedEvent v a = Some a1"
    and wf: "\<forall>p \<in> set (roster a). p < nextAddr (sim a)"
    and ini: "initialParticles (Engine (sim a)) \<noteq> [] \<longrightarrow> roster a \<noteq> []"
  shows "histInv a1"
proof -
  from HistoryTrailLengthChangedEvent_spec [OF ev] have
    f: "roster a1 = roster a" "nextAddr (sim a1) = nextAddr (sim a)" "HistoryLength a1 = v"
      "initialParticles (Engine (sim a1)) = initialParticles (Engine (sim a))"
    and t: "\<forall>p \<in> set (roster a). truncateHistory v (particleAt a p) = Some (particleAt a1 p)"
    by simp_all
  have ok: "\<forall>p \<in> set (roster a). histOK v (particleAt a1 p)"
    using t truncateHistory_Some by blast
  have "0 \<le> v" if "roster a \<noteq> []"
  proof -
    from that obtain p where "p \<in> set (roster a)" by (cases "roster a") auto
    then show ?thesis using ok histOK_nonneg by blast
  qed
  then show ?thesis using f ok wf ini by (auto simp: histInv_def)
qed

lemma generate_histInv:
  assumes "GenerateParticles rnd a = Some a'"
  shows "histInv a'"
proof -
  define xs where "xs = map (\<lambda>i. randomParticle a (rnd i)) [0..<nat (NumberOfParticles a)]"
  define a1 where "a1 = setRoster xs a"
  define a2 where "a2 = HistoryTrailChangedEvent (HistoryTrail a1) a1"
  from assms obtain a3 where ev: "HistoryTrailLengthChangedEvent (HistoryLength a2) a2 = Some a3"
    and a': "a' = a3\<lparr>sim := SaveInitialParticleStates (sim a3)\<rparr>"
    unfolding GenerateParticles_def Let_def map_option_eq_Some
    by (auto simp: xs_def a1_def a2_def split: if_splits)
  have r1: "roster a1 = [nextAddr (sim a)..<nextAddr (sim a) + length xs]"
    "nextAddr (sim a1) = nextAddr (sim a) + length xs"
    using setRoster_spec [of xs a] by (simp_all add: a1_def)
  have r2: "roster a2 = roster a1" "nextAddr (sim a2) = nextAddr (sim a1)"
    by (simp_all add: a2_def HistoryTrailChangedEvent_frame)
  from HistoryTrailLengthChangedEvent_spec [OF ev] have
    r3: "roster a3 = roster a2" "nextAddr (sim a3) = nextAddr (sim a2)"
      "HistoryLength a3 = HistoryLength a2"
    and t: "\<forall>p \<in> set (roster a2). truncateHistory (HistoryLength a2) (particleAt a2 p) = Some (particleAt a3 p)"
    by simp_all
  have wf3: "\<forall>p \<in> set (roster a3). p < nextAddr (sim a3)" using r1 r2 r3 by simp
  have ok3: "\<forall>p \<in> set (roster a3). histOK (HistoryLength a3) (particleAt a3 p)"
    using t r3 truncateHistory_Some by metis
  from SaveInitialParticleStates_spec [of "sim a3"] have
    s: "roster a' = roster a3" "nextAddr (sim a') = nextAddr (sim a3) + length (roster a3)"
      "\<forall>x<nextAddr (sim a3). particleAt a' x = particleAt a3 x"
      "length (initialParticles (Engine (sim a'))) = length (roster a3)"
    by (simp_all add: a' roster_def particleAt_def)
  have hl: "HistoryLength a' = HistoryLength a3" by (simp add: a')
  have "0 \<le> HistoryLength a3" if "initialParticles (Engine (sim a')) \<noteq> []"
  proof -
    from that s(4) have "roster a3 \<noteq> []" by auto
    then obtain p where "p \<in> set (roster a3)" by (cases "roster a3") auto
    then show ?thesis using ok3 histOK_nonneg by blast
  qed
  then show ?thesis using s(1,2,3) wf3 ok3 hl by (auto simp: histInv_def)
qed

lemma initialize_history: "positionHistory (initialize p) = []"
  by (simp add: initialize_def initializeWithValues_def)

lemma load_histInv:
  assumes "LoadStateEvent fl a = Some a'" "histInv a"
  shows "histInv a'"
proof (cases fl)
  case None
  then show ?thesis using assms by (simp add: LoadStateEvent_def)
next
  case (Some d)
  define a1 where "a1 = a\<lparr>NumberOfParticles := fNumberOfParticles d, AverageMass := fAverageMass d,
                      HistoryTrail := fHistoryTrail d, HistoryLength := fHistoryLength d,
                      PhysicsLoopSpeed := fPhysicsLoopSpeed d\<rparr>"
  define a2 where "a2 = setRoster (map decodedParticle (fParticles d))
                      (setEngine (\<lambda>_. decodedEngine d) a1)"
  define a3 where "a3 = a2\<lparr>sim := SaveInitialParticleStates (InitializeParticles (sim a2))\<rparr>"
  define a4 where "a4 = HistoryTrailChangedEvent (fHistoryTrail d) a3"
  have ev: "HistoryTrailLengthChangedEvent (fHistoryLength d) a4 = Some a'"
    using assms(1) Some by (simp add: LoadStateEvent_def Let_def a1_def a2_def a3_def a4_def)
  let ?n = "nextAddr (sim (setEngine (\<lambda>_. decodedEngine d) a1))"
  let ?k = "length (map decodedParticle (fParticles d))"
  have r2: "roster a2 = [?n..<?n + ?k]" "nextAddr (sim a2) = ?n + ?k"
    using setRoster_spec [of "map decodedParticle (fParticles d)" "setEngine (\<lambda>_. decodedEngine d) a1"]
    by (simp_all add: a2_def)
  from SaveInitialParticleStates_spec [of "InitializeParticles (sim a2)"] have
    r3: "roster a3 = roster a2" "nextAddr (sim a3) = nextAddr (sim a2) + length (roster a2)"
      "length (initialParticles (Engine (sim a3))) = length (roster a2)"
    by (simp_all add: a3_def roster_def InitializeParticles_def)
  have r4: "roster a4 = roster a3" "nextAddr (sim a4) = nextAddr (sim a3)"
    "initialParticles (Engine (sim a4)) = initialParticles (Engine (sim a3))"
    by (simp_all add: a4_def HistoryTrailChangedEvent_frame)
  have wf: "\<forall>p \<in> set (roster a4). p < nextAddr (sim a4)" using r2 r3 r4 by simp
  have ini: "initialParticles (Engine (sim a4)) \<noteq> [] \<longrightarrow> roster a4 \<noteq> []"
    using r3 r4 by auto
  show ?thesis by (rule established_by_length_event [OF ev wf ini])
qed

lemma Clone_history: "positionHistory (Clone p) = []"
  using Clone_fresh [of p] by (simp add: freshState_def)

lemma reset_histInv:
  assumes "ResetEnvironmentEvent a = Some a'" "histInv a"
  shows "histInv a'"
proof -
  define a1 where "a1 = a\<lparr>sim := RestoreInitialParticleStates (sim a)\<rparr>"
  from assms(1) obtain a2 where ev: "HistoryTrailLengthChangedEvent 0 a1 = Some a2"
    and a': "a' = HistoryTrailChangedEvent (HistoryTrail (a2\<lparr>HistoryLength := HistoryLength a1\<rparr>))
                    (a2\<lparr>HistoryLength := HistoryLength a1\<rparr>)"
    unfolding ResetEnvironmentEvent_def Let_def map_option_eq_Some
    by (auto simp: a1_def)
  let ?a3 = "a2\<lparr>HistoryLength := HistoryLength a1\<rparr>"
  let ?n = "nextAddr (sim a)"
  let ?k = "length (initialParticles (Engine (sim a)))"
  from RestoreInitialParticleStates_spec [of "sim a"] have
    r1: "roster a1 = [?n..<?n + ?k]" "nextAddr (sim a1) = ?n + ?k"
      "initialParticles (Engine (sim a1)) = initialParticles (Engine (sim a))"
      "HistoryLength a1 = HistoryLength a"
    by (simp_all add: a1_def roster_def)
  from HistoryTrailLengthChangedEvent_spec [OF ev] have
    r2: "roster a2 = roster a1" "nextAddr (sim a2) = nextAddr (sim a1)"
      "initialParticles (Engine (sim a2)) = initialParticles (Engine (sim a1))"
    and t: "\<forall>p \<in> set (roster a1). truncateHistory 0 (particleAt a1 p) = Some (particleAt a2 p)"
    by simp_all
  have len0: "\<forall>p \<in> set (roster a1). length (positionHistory (particleAt a2 p)) = 0"
    using t truncateHistory_Some by (fastforce simp: histOK_def)
  have r3: "roster ?a3 = roster a1" "nextAddr (sim ?a3) = nextAddr (sim a1)"
    "HistoryLength ?a3 = HistoryLength a"
    "initialParticles (Engine (sim ?a3)) = initialParticles (Engine (sim a))"
    "\<And>p. particleAt ?a3 p = particleAt a2 p"
    using r1 r2 by (simp_all add: roster_def particleAt_def)
  have nonneg: "0 \<le> HistoryLength a" if "roster a1 \<noteq> []"
  proof -
    from that r1(1) have "initialParticles (Engine (sim a)) \<noteq> []" by auto
    then show ?thesis using assms(2) by (simp add: histInv_def)
  qed
  have ok: "histOK (HistoryLength a) (particleAt a' p)" if p: "p \<in> set (roster a1)" for p
  proof -
    have "roster a1 \<noteq> []" using p by auto
    then have "int (length (positionHistory (particleAt ?a3 p))) \<le> HistoryLength ?a3"
      using len0 p nonneg by (simp add: r3)
    from HistoryTrailChangedEvent_histOK [OF _ this, of "HistoryTrail ?a3"] p
    show ?thesis unfolding a' by (simp add: r3)
  qed
  have f: "roster a' = roster a1" "nextAddr (sim a') = nextAddr (sim a1)"
    "HistoryLength a' = HistoryLength a"
    "initialParticles (Engine (sim a')) = initialParticles (Engine (sim a))"
    unfolding a' using r1 r2 by (simp_all add: HistoryTrailChangedEvent_frame roster_def)
  have "initialParticles (Engine (sim a)) \<noteq> [] \<longrightarrow> 0 \<le> HistoryLength a"
    using assms(2) by (simp add: histInv_def)
  then show ?thesis using f ok r1(1,2) by (auto simp: histInv_def)
qed

lemma tick_histInv:
  assumes "physicsTick srt a = Some a'" "permutes srt" "histInv a"
  shows "histInv a'"
proof -
  from assms(1) obtain r where up: "UpdateParticles srt (sim a) = Some r" and a': "a' = a\<lparr>sim := snd r\<rparr>"
    unfolding physicsTick_def map_option_eq_Some by auto
  have up': "UpdateParticles srt (sim a) = Some (fst r, snd r)" using up by simp
  have wf: "\<forall>p \<in> set (Particles (Engine (sim a))). p < nextAddr (sim a)"
    and ok: "\<forall>p \<in> set (Particles (Engine (sim a))). histOK (HistoryLength a) (heap (sim a) p)"
    using assms(3) by (simp_all add: histInv_def roster_def particleAt_def)
  from tick_histOK [OF assms(2) wf ok up'] assms(3) show ?thesis
    by (simp add: histInv_def a' roster_def particleAt_def)
qed

lemma trail_histInv: "histInv a \<Longrightarrow> histInv (HistoryTrailChangedEvent b a)"
proof -
  assume inv: "histInv a"
  have "histOK (HistoryLength a) (particleAt (HistoryTrailChangedEvent b a) p)"
    if "p \<in> set (roster a)" for p
    using that inv by (intro HistoryTrailChangedEvent_histOK) (auto simp: histInv_def histOK_def)
  then show ?thesis using inv by (simp add: histInv_def HistoryTrailChangedEvent_frame)
qed

lemma length_histInv:
  assumes "HistoryTrailLengthChangedEvent v a = Some a'" "histInv a" "0 \<le> v"
  shows "histInv a'"
proof -
  from HistoryTrailLengthChangedEvent_spec [OF assms(1)] have
    f: "roster a' = roster a" "nextAddr (sim a') = nextAddr (sim a)" "HistoryLength a' = v"
      "initialParticles (Engine (sim a')) = initialParticles (Engine (sim a))"
    and t: "\<forall>p \<in> set (roster a). truncateHistory v (particleAt a p) = Some (particleAt a' p)"
    by simp_all
  have "\<forall>p \<in> set (roster a). histOK v (particleAt a' p)"
    using t truncateHistory_Some by blast
  then show ?thesis using f assms(2,3) by (simp add: histInv_def)
qed

lemma reachable_histInv: "reachable a \<Longrightarrow> histInv a"
proof (induction rule: reachable.induct)
  case (start rnd a)
  then show ?case by (rule generate_histInv)
next
  case (tick a srt a')
  then show ?case using tick_histInv by blast
next
  case (environmentSize a rnd v a')
  have "histInv (setEngine (\<lambda>e. e\<lparr>EnvironmentSize := v\<rparr>) a)"
    by (rule setEngine_frame) (simp_all add: environmentSize.IH)
  then show ?case using environmentSize.hyps(2) generate_histInv
    by (auto simp: EnvironmentSizeChangedEvent_def Let_def split: if_splits)
next
  case (numParticles a rnd v a')
  have "histInv (a\<lparr>NumberOfParticles := v\<rparr>)"
    using numParticles.IH by (simp add: histInv_def roster_def particleAt_def)
  then show ?case using numParticles.hyps(2) generate_histInv
    by (auto simp: NumParticlesChangedEvent_def Let_def split: if_splits)
next
  case (averageMass a rnd v a')
  have "histInv (a\<lparr>AverageMass := v\<rparr>)"
    using averageMass.IH by (simp add: histInv_def roster_def particleAt_def)
  then show ?case using averageMass.hyps(2) generate_histInv
    by (auto simp: AverageMassChangedEvent_def Let_def split: if_splits)
next
  case (regen a rnd a')
  then show ?case using generate_histInv by (simp add: RegenParticlesEvent_def)
next
  case (gravity a x)
  show ?case unfolding GravityStrengthChangedEvent_def
    by (rule setEngine_frame) (simp_all add: gravity.IH)
next
  case (closeCharge a x)
  show ?case unfolding CloseChargeStrengthChangedEvent_def
    by (rule setEngine_frame) (simp_all add: closeCharge.IH)
next
  case (farCharge a x)
  show ?case unfolding FarChargeStrengthChangedEvent_def
    by (rule setEngine_frame) (simp_all add: farCharge.IH)
next
  case (allowMerge a b)
  show ?case unfolding AllowMergeChangedEvent_def
    by (rule setEngine_frame) (simp_all add: allowMerge.IH)
next
  case (wallBounce a b)
  show ?case unfolding WallBounceChangedEvent_def
    by (rule setEngine_frame) (simp_all add: wallBounce.IH)
next
  case (historyTrail a b)
  then show ?case by (simp add: trail_histInv)
next
  case (historyLength a v a')
  then show ?case using length_histInv [of v a a'] by simp
next
  case (loopSpeed a v)
  then show ?case by (simp add: histInv_def PhysicsLoopSpeedChangedEvent_def roster_def particleAt_def)
next
  case (pauseResume a)
  then show ?case by (simp add: histInv_def PauseResumeEvent_def roster_def particleAt_def)
next
  case (reset a a')
  then show ?case using reset_histInv by blast
next
  case (load a fl a')
  then show ?case using load_histInv by blast
qed

text \<open>
  Claim C4. In every state of the running application, after any sequence of ticks and
  events, every particle of the roster has a history no longer than its \<^verbatim>\<open>historySize\<close>.
  \<^verbatim>\<open>SetHistorySize\<close> itself only stores the value; the handler of the history length,
  which is the one place that changes the size of particles with a history, first cuts
  the history: whenever it returns, every particle of the roster has the new size and the
  last \<open>v\<close> entries of its old history, the oldest ones dropped.
\<close>

theorem history_bounded_by_size:
  "(reachable a \<longrightarrow>
      (\<forall>p \<in> set (roster a).
         int (length (positionHistory (particleAt a p))) \<le> historySize (particleAt a p))) \<and>
   (HistoryTrailLengthChangedEvent v a = Some a' \<longrightarrow>
      (\<forall>p \<in> set (roster a).
         historySize (particleAt a' p) = v \<and>
         int (length (positionHistory (particleAt a' p))) \<le> v \<and>
         positionHistory (particleAt a' p) =
           drop (length (positionHistory (particleAt a p)) - nat v)
                (positionHistory (particleAt a p))))"
proof (intro conjI impI ballI)
  fix p assume "reachable a" "p \<in> set (roster a)"
  then show "int (length (positionHistory (particleAt a p))) \<le> historySize (particleAt a p)"
    using reachable_histInv [of a] by (auto simp: histInv_def histOK_def)
next
  fix p assume ev: "HistoryTrailLengthChangedEvent v a = Some a'" and p: "p \<in> set (roster a)"
  from HistoryTrailLengthChangedEvent_spec [OF ev] p
  have "truncateHistory v (particleAt a p) = Some (particleAt a' p)" by simp
  from truncateHistory_Some [OF this]
  have ok: "histOK v (particleAt a' p)"
    and dr: "positionHistory (particleAt a' p) =
       drop (length (positionHistory (particleAt a p)) - nat v) (positionHistory (particleAt a p))"
    by blast+
  from ok show "historySize (particleAt a' p) = v" by (simp add: histOK_def)
  from ok show "int (length (positionHistory (particleAt a' p))) \<le> v" by (simp add: histOK_def)
  from dr show "positionHistory (particleAt a' p) =
       drop (length (positionHistory (particleAt a p)) - nat v) (positionHistory (particleAt a p))" .
qed

lemma forEachOpt_total:
  "0 \<le> v \<Longrightarrow> \<exists>h'. forEachOpt (truncateHistory v) ps h = Some h'"
proof (induction ps arbitrary: h)
  case Nil
  then show ?case by simp
next
  case (Cons p ps)
  from Cons.prems have "\<exists>p'. truncateHistory v (h p) = Some p'"
    by (simp add: truncateHistory_def Let_def)
  then obtain p' where p': "truncateHistory v (h p) = Some p'" by blast
  have "\<exists>h'. forEachOpt (truncateHistory v) ps (h(p := p')) = Some h'"
    by (rule Cons.IH [OF Cons.prems])
  then show ?case by (simp only: forEachOpt.simps p' option.case)
qed

lemma HistoryTrailLengthChangedEvent_total:
  "0 \<le> v \<Longrightarrow> \<exists>a'. HistoryTrailLengthChangedEvent v a = Some a'"
  using forEachOpt_total [of v "roster (a\<lparr>HistoryLength := v\<rparr>)" "heap (sim (a\<lparr>HistoryLength := v\<rparr>))"]
  by (auto simp: HistoryTrailLengthChangedEvent_def Let_def)

lemma GenerateParticles_total:
  assumes "0 \<le> NumberOfParticles a" "0 \<le> HistoryLength a"
  shows "\<exists>a'. GenerateParticles rnd a = Some a' \<and>
           roster a' = [nextAddr (sim a)..<nextAddr (sim a) + nat (NumberOfParticles a)]"
proof -
  define xs where "xs = map (\<lambda>i. randomParticle a (rnd i)) [0..<nat (NumberOfParticles a)]"
  define a1 where "a1 = setRoster xs a"
  define a2 where "a2 = HistoryTrailChangedEvent (HistoryTrail a1) a1"
  have hl: "HistoryLength a2 = HistoryLength a"
    using setRoster_spec [of xs a] by (simp add: a2_def a1_def HistoryTrailChangedEvent_frame)
  then obtain a3 where ev: "HistoryTrailLengthChangedEvent (HistoryLength a2) a2 = Some a3"
    using HistoryTrailLengthChangedEvent_total [of "HistoryLength a2" a2] assms(2) by auto
  have g: "GenerateParticles rnd a = Some (a3\<lparr>sim := SaveInitialParticleStates (sim a3)\<rparr>)"
    using assms(1) ev by (simp add: GenerateParticles_def Let_def xs_def a1_def a2_def)
  have "roster a3 = roster a2" using HistoryTrailLengthChangedEvent_spec [OF ev] by simp
  also have "\<dots> = roster a1" by (simp add: a2_def HistoryTrailChangedEvent_frame)
  also have "\<dots> = [nextAddr (sim a)..<nextAddr (sim a) + length xs]"
    using setRoster_spec [of xs a] by (simp add: a1_def)
  finally have "roster a3 = [nextAddr (sim a)..<nextAddr (sim a) + nat (NumberOfParticles a)]"
    by (simp add: xs_def)
  moreover have "roster (a3\<lparr>sim := SaveInitialParticleStates (sim a3)\<rparr>) = roster a3"
    using SaveInitialParticleStates_spec [of "sim a3"] by (simp add: roster_def)
  ultimately show ?thesis using g by simp
qed

lemma firstState_reachable: "reachable firstState \<and> roster firstState = [0..<50]"
proof -
  from GenerateParticles_total [of mainState noDraws]
  obtain a' where g: "GenerateParticles noDraws mainState = Some a'" and r: "roster a' = [0..<50]"
    by (auto simp: mainState_def)
  have "firstState = a'" by (simp add: firstState_def g)
  then show ?thesis using reachable.start [OF g] r by simp
qed

lemma trackedApp_shrinks: "HistoryTrailLengthChangedEvent 1 trackedApp = Some shrunkApp"
  using HistoryTrailLengthChangedEvent_total [of 1 trackedApp] by (auto simp: shrunkApp_def)

lemma trackedApp_fields:
  "roster trackedApp = [0, 1]" "particleAt trackedApp 0 = heavy" "particleAt trackedApp 1 = light"
  by (simp_all add: trackedApp_def twoSim_def roster_def particleAt_def twoHeap_def)

theorem history_bounded_by_size_witness:
  "reachable firstState \<and> 0 \<in> set (roster firstState) \<and>
   int (length (positionHistory (particleAt firstState 0))) \<le> historySize (particleAt firstState 0) \<and>
   HistoryTrailLengthChangedEvent 1 trackedApp = Some shrunkApp \<and>
   0 \<in> set (roster trackedApp) \<and>
   positionHistory (particleAt trackedApp 0) = [(Fin 8, Fin 10), (Fin 9, Fin 10)] \<and>
   historySize (particleAt shrunkApp 0) = 1 \<and>
   positionHistory (particleAt shrunkApp 0) = [(Fin 9, Fin 10)]"
  using history_bounded_by_size [of firstState] history_bounded_by_size [of trackedApp 1 shrunkApp]
    firstState_reachable trackedApp_shrinks
  by (simp add: trackedApp_fields heavy_fields)

section \<open>Merge state does not survive a tick\<close>

lemma tick_clean:
  assumes "permutes srt"
    and "\<forall>a \<in> set (Particles (Engine w)). a < nextAddr w"
    and "\<forall>a \<in> set (Particles (Engine w)). clean (heap w a)"
  shows "\<exists>r w'. UpdateParticles srt w = Some (r, w') \<and>
           (\<forall>a \<in> set (Particles (Engine w')). a < nextAddr w' \<and> clean (heap w' a))"
proof -
  let ?eng = "Engine w"
  let ?ps = "Particles ?eng"
  let ?h1 = "updateParticleVelocities ?eng ?ps (heap w)"
  let ?h2 = "updateParticlePositions ?ps ?h1"
  let ?ps1 = "srt (massGreater ?h2) ?ps"
  have set1: "set ?ps1 = set ?ps" by (rule permutes_set [OF assms(1)])
  have wf: "\<forall>a \<in> set ?ps1. a < nextAddr w" using assms(2) set1 by simp
  have pend: "\<forall>a \<in> set ?ps1. pendingOK (?h2 a)"
  proof
    fix a assume "a \<in> set ?ps1"
    then have "clean (heap w a)" using assms(3) set1 by simp
    then have "pendingOK (heap w a)" by (simp add: clean_def pendingOK_def)
    then show "pendingOK (?h2 a)" by (intro positions_pendingOK force_pendingOK)
  qed
  have cl: "\<not> AllowMerge ?eng \<longrightarrow> (\<forall>a \<in> set ?ps1. clean (?h2 a))"
  proof (intro impI ballI)
    fix a assume na: "\<not> AllowMerge ?eng" and "a \<in> set ?ps1"
    then have "clean (heap w a)" using assms(3) set1 by simp
    then show "clean (?h2 a)" using na by (intro positions_clean force_clean_no_merge)
  qed
  from handleMergers_clean [OF wf pend cl] obtain m ps2 where
    hm: "handleMergers ?eng ?ps1 ?h2 (nextAddr w) = Some (m, ps2)" and
    ok: "\<forall>a \<in> set ps2. a < mnext m \<and> clean (mheap m a)" by blast
  let ?w1 = "w\<lparr>heap := mheap m, nextAddr := mnext m, Engine := ?eng\<lparr>Particles := ps2\<rparr>\<rparr>"
  have bw: "beforeWalls srt w =
      Some ((mergeOccurred m, mergeMultiple m, mergeSource m, mergedResult m), ?w1)"
    using hm by (simp add: beforeWalls_def Let_def)
  then have up: "UpdateParticles srt w =
      Some ((mergeOccurred m, mergeMultiple m, mergeSource m, mergedResult m), wallBounceAll ?w1)"
    by (simp add: UpdateParticles_def)
  have "\<forall>a \<in> set (Particles (Engine (wallBounceAll ?w1))).
      a < nextAddr (wallBounceAll ?w1) \<and> clean (heap (wallBounceAll ?w1) a)"
  proof
    fix a assume "a \<in> set (Particles (Engine (wallBounceAll ?w1)))"
    then have "a \<in> set ps2" by (simp add: walls_frame)
    then have "a < mnext m" "clean (heap ?w1 a)" using ok by simp_all
    then show "a < nextAddr (wallBounceAll ?w1) \<and> clean (heap (wallBounceAll ?w1) a)"
      using walls_clean [of ?w1 a] by (simp add: walls_frame)
  qed
  then show ?thesis using up by blast
qed

lemma cleanInv_frame:
  assumes "cleanInv a" "roster a' = roster a"
    "\<forall>p \<in> set (roster a). particleAt a' p = particleAt a p"
    "nextAddr (sim a') = nextAddr (sim a)"
  shows "cleanInv a'"
  using assms by (simp add: cleanInv_def)

lemma setEngine_cleanInv:
  assumes "\<And>e. Particles (f e) = Particles e"
  shows "cleanInv a \<Longrightarrow> cleanInv (setEngine f a)"
  by (rule cleanInv_frame [where a = a])
     (simp_all add: setEngine_def roster_def particleAt_def assms)

lemma setRoster_all:
  assumes "\<forall>x \<in> set xs. Q x"
  shows "\<forall>p \<in> set (roster (setRoster xs a)).
           p < nextAddr (sim (setRoster xs a)) \<and> Q (particleAt (setRoster xs a) p)"
proof
  fix p assume p: "p \<in> set (roster (setRoster xs a))"
  let ?n = "nextAddr (sim a)"
  from setRoster_spec [of xs a] have
    r: "roster (setRoster xs a) = [?n..<?n + length xs]"
    and n: "nextAddr (sim (setRoster xs a)) = ?n + length xs"
    and v: "\<forall>i<length xs. particleAt (setRoster xs a) (?n + i) = xs ! i"
    by simp_all
  from p r have b: "?n \<le> p" "p < ?n + length xs" by simp_all
  then have i: "p - ?n < length xs" and e: "?n + (p - ?n) = p" by simp_all
  from v i have "particleAt (setRoster xs a) (?n + (p - ?n)) = xs ! (p - ?n)" by blast
  then have "particleAt (setRoster xs a) p = xs ! (p - ?n)" by (simp only: e)
  moreover have "xs ! (p - ?n) \<in> set xs" using i by simp
  ultimately show "p < nextAddr (sim (setRoster xs a)) \<and> Q (particleAt (setRoster xs a) p)"
    using assms b n by simp
qed

lemma truncateHistory_clean: "truncateHistory v p = Some p' \<Longrightarrow> clean p' = clean p"
  by (auto simp: truncateHistory_def Let_def clean_def SetHistorySize_def SetPositionHistory_def
      split: if_splits)

lemma trail_clean:
  "clean (particleAt a p) \<Longrightarrow> clean (particleAt (HistoryTrailChangedEvent b a) p)"
proof -
  assume c: "clean (particleAt a p)"
  let ?m = "\<lambda>P. SetHistorySize (HistoryLength a) (SetTrackHistory b P)"
  have "clean (forEach ?m (roster a) (heap (sim a)) p)"
    using c unfolding particleAt_def
    by (rule forEach_pres [where Q = clean, rotated])
       (simp add: clean_def SetHistorySize_def SetTrackHistory_def)
  then show ?thesis
    by (simp add: HistoryTrailChangedEvent_def Let_def setHeap_def particleAt_def roster_def)
qed

lemma trail_cleanInv: "cleanInv a \<Longrightarrow> cleanInv (HistoryTrailChangedEvent b a)"
  by (simp add: cleanInv_def HistoryTrailChangedEvent_frame trail_clean)

lemma length_cleanInv:
  assumes "HistoryTrailLengthChangedEvent v a = Some a'" "cleanInv a"
  shows "cleanInv a'"
proof -
  from HistoryTrailLengthChangedEvent_spec [OF assms(1)] have
    f: "roster a' = roster a" "nextAddr (sim a') = nextAddr (sim a)"
    and t: "\<forall>p \<in> set (roster a). truncateHistory v (particleAt a p) = Some (particleAt a' p)"
    by simp_all
  have "clean (particleAt a' p)" if "p \<in> set (roster a)" for p
    using that t truncateHistory_clean [of v "particleAt a p" "particleAt a' p"] assms(2)
    by (simp add: cleanInv_def)
  then show ?thesis using f assms(2) by (simp add: cleanInv_def)
qed

lemma save_cleanInv:
  "cleanInv a \<Longrightarrow> cleanInv (a\<lparr>sim := SaveInitialParticleStates (sim a)\<rparr>)"
  using SaveInitialParticleStates_spec [of "sim a"]
  by (auto simp: cleanInv_def roster_def particleAt_def)

lemma randomParticle_clean: "clean (randomParticle a d)"
  by (simp add: randomParticle_def Let_def clean_def NewParticle_fields)

lemma generate_cleanInv:
  assumes "GenerateParticles rnd a = Some a'"
  shows "cleanInv a'"
proof -
  define xs where "xs = map (\<lambda>i. randomParticle a (rnd i)) [0..<nat (NumberOfParticles a)]"
  define a1 where "a1 = setRoster xs a"
  define a2 where "a2 = HistoryTrailChangedEvent (HistoryTrail a1) a1"
  from assms obtain a3 where ev: "HistoryTrailLengthChangedEvent (HistoryLength a2) a2 = Some a3"
    and a': "a' = a3\<lparr>sim := SaveInitialParticleStates (sim a3)\<rparr>"
    unfolding GenerateParticles_def Let_def map_option_eq_Some
    by (auto simp: xs_def a1_def a2_def split: if_splits)
  have "\<forall>x \<in> set xs. clean x" by (auto simp: xs_def randomParticle_clean)
  then have "cleanInv a1" unfolding a1_def cleanInv_def by (rule setRoster_all)
  then have "cleanInv a2" unfolding a2_def by (rule trail_cleanInv)
  then have "cleanInv a3" by (rule length_cleanInv [OF ev])
  then show ?thesis unfolding a' by (rule save_cleanInv)
qed

lemma initialize_clean: "\<not> merging p \<Longrightarrow> clean (initialize p)"
  by (simp add: initialize_def initializeWithValues_def clean_def SetFarCharge_def
      SetCloseCharge_def SetMass_def Let_def)

lemma load_cleanInv:
  assumes "LoadStateEvent fl a = Some a'" "cleanInv a"
  shows "cleanInv a'"
proof (cases fl)
  case None
  then show ?thesis using assms by (simp add: LoadStateEvent_def)
next
  case (Some d)
  define a1 where "a1 = a\<lparr>NumberOfParticles := fNumberOfParticles d, AverageMass := fAverageMass d,
                      HistoryTrail := fHistoryTrail d, HistoryLength := fHistoryLength d,
                      PhysicsLoopSpeed := fPhysicsLoopSpeed d\<rparr>"
  define a2 where "a2 = setRoster (map decodedParticle (fParticles d))
                      (setEngine (\<lambda>_. decodedEngine d) a1)"
  define b where "b = a2\<lparr>sim := InitializeParticles (sim a2)\<rparr>"
  define a3 where "a3 = a2\<lparr>sim := SaveInitialParticleStates (InitializeParticles (sim a2))\<rparr>"
  define a4 where "a4 = HistoryTrailChangedEvent (fHistoryTrail d) a3"
  have ev: "HistoryTrailLengthChangedEvent (fHistoryLength d) a4 = Some a'"
    using assms(1) Some by (simp add: LoadStateEvent_def Let_def a1_def a2_def a3_def a4_def)
  have "\<forall>x \<in> set (map decodedParticle (fParticles d)). \<not> merging x"
    by (auto simp: decodedParticle_def zeroParticle_def)
  then have r2: "\<forall>p \<in> set (roster a2). p < nextAddr (sim a2) \<and> \<not> merging (particleAt a2 p)"
    unfolding a2_def by (rule setRoster_all)
  have "clean (particleAt b p)" if "p \<in> set (roster a2)" for p
  proof -
    have "\<not> merging (heap (sim a2) p)" using r2 that by (simp add: particleAt_def)
    then have "clean (forEach initialize (Particles (Engine (sim a2))) (heap (sim a2)) p)"
      using that unfolding roster_def
      by (rule forEach_establish [where Pre = "\<lambda>P. \<not> merging P" and Q = clean, rotated 2])
         (use initialize_clean in \<open>auto simp: clean_def\<close>)
    then show ?thesis by (simp add: b_def InitializeParticles_def particleAt_def)
  qed
  then have "cleanInv b" using r2
    by (simp add: cleanInv_def b_def roster_def InitializeParticles_def)
  then have "cleanInv (b\<lparr>sim := SaveInitialParticleStates (sim b)\<rparr>)" by (rule save_cleanInv)
  then have "cleanInv a3" by (simp add: b_def a3_def)
  then have "cleanInv a4" unfolding a4_def by (rule trail_cleanInv)
  then show ?thesis by (rule length_cleanInv [OF ev])
qed

lemma restore_cleanInv: "cleanInv (a\<lparr>sim := RestoreInitialParticleStates (sim a)\<rparr>)"
proof -
  obtain cs h' n' where
    c: "cloneAll (initialParticles (Engine (sim a))) (heap (sim a)) (nextAddr (sim a)) = (cs, h', n')"
    by (metis prod_cases3)
  have r: "roster (a\<lparr>sim := RestoreInitialParticleStates (sim a)\<rparr>) = cs"
    "heap (RestoreInitialParticleStates (sim a)) = h'"
    "nextAddr (RestoreInitialParticleStates (sim a)) = n'"
    by (simp_all add: RestoreInitialParticleStates_def c roster_def)
  have "p < n' \<and> clean (h' p)" if "p \<in> set cs" for p
  proof -
    from cloneAll_clones [OF c that] obtain x where "h' p = Clone x" by blast
    then have "clean (h' p)" using Clone_fresh [of x] by (simp add: clean_def freshState_def)
    moreover have "p < n'" using cloneAll_shape [OF c] that by simp
    ultimately show ?thesis by simp
  qed
  then show ?thesis by (simp add: cleanInv_def r particleAt_def)
qed

lemma reset_cleanInv:
  assumes "ResetEnvironmentEvent a = Some a'"
  shows "cleanInv a'"
proof -
  define a1 where "a1 = a\<lparr>sim := RestoreInitialParticleStates (sim a)\<rparr>"
  from assms obtain a2 where ev: "HistoryTrailLengthChangedEvent 0 a1 = Some a2"
    and a': "a' = HistoryTrailChangedEvent (HistoryTrail (a2\<lparr>HistoryLength := HistoryLength a1\<rparr>))
                    (a2\<lparr>HistoryLength := HistoryLength a1\<rparr>)"
    unfolding ResetEnvironmentEvent_def Let_def map_option_eq_Some
    by (auto simp: a1_def)
  have "cleanInv a1" unfolding a1_def by (rule restore_cleanInv)
  then have "cleanInv a2" by (rule length_cleanInv [OF ev])
  then have "cleanInv (a2\<lparr>HistoryLength := HistoryLength a1\<rparr>)"
    by (simp add: cleanInv_def roster_def particleAt_def)
  then show ?thesis unfolding a' by (rule trail_cleanInv)
qed

lemma physicsTick_clean:
  assumes "permutes srt" "cleanInv a"
  shows "\<exists>a'. physicsTick srt a = Some a' \<and> cleanInv a'"
proof -
  have wf: "\<forall>p \<in> set (Particles (Engine (sim a))). p < nextAddr (sim a)"
    and cl: "\<forall>p \<in> set (Particles (Engine (sim a))). clean (heap (sim a) p)"
    using assms(2) by (simp_all add: cleanInv_def roster_def particleAt_def)
  from tick_clean [OF assms(1) wf cl] obtain r w' where
    up: "UpdateParticles srt (sim a) = Some (r, w')"
    and ok: "\<forall>p \<in> set (Particles (Engine w')). p < nextAddr w' \<and> clean (heap w' p)"
    by blast
  have "physicsTick srt a = Some (a\<lparr>sim := w'\<rparr>)" by (simp add: physicsTick_def up)
  moreover have "cleanInv (a\<lparr>sim := w'\<rparr>)"
    using ok by (simp add: cleanInv_def roster_def particleAt_def)
  ultimately show ?thesis by blast
qed

lemma reachable_cleanInv: "reachable a \<Longrightarrow> cleanInv a"
proof (induction rule: reachable.induct)
  case (start rnd a)
  then show ?case by (rule generate_cleanInv)
next
  case (tick a srt a')
  then show ?case using physicsTick_clean [of srt a] by auto
next
  case (environmentSize a rnd v a')
  have "cleanInv (setEngine (\<lambda>e. e\<lparr>EnvironmentSize := v\<rparr>) a)"
    by (rule setEngine_cleanInv) (simp_all add: environmentSize.IH)
  then show ?case using environmentSize.hyps(2) generate_cleanInv
    by (auto simp: EnvironmentSizeChangedEvent_def Let_def split: if_splits)
next
  case (numParticles a rnd v a')
  have "cleanInv (a\<lparr>NumberOfParticles := v\<rparr>)"
    using numParticles.IH by (simp add: cleanInv_def roster_def particleAt_def)
  then show ?case using numParticles.hyps(2) generate_cleanInv
    by (auto simp: NumParticlesChangedEvent_def Let_def split: if_splits)
next
  case (averageMass a rnd v a')
  have "cleanInv (a\<lparr>AverageMass := v\<rparr>)"
    using averageMass.IH by (simp add: cleanInv_def roster_def particleAt_def)
  then show ?case using averageMass.hyps(2) generate_cleanInv
    by (auto simp: AverageMassChangedEvent_def Let_def split: if_splits)
next
  case (regen a rnd a')
  then show ?case using generate_cleanInv by (simp add: RegenParticlesEvent_def)
next
  case (gravity a x)
  show ?case unfolding GravityStrengthChangedEvent_def
    by (rule setEngine_cleanInv) (simp_all add: gravity.IH)
next
  case (closeCharge a x)
  show ?case unfolding CloseChargeStrengthChangedEvent_def
    by (rule setEngine_cleanInv) (simp_all add: closeCharge.IH)
next
  case (farCharge a x)
  show ?case unfolding FarChargeStrengthChangedEvent_def
    by (rule setEngine_cleanInv) (simp_all add: farCharge.IH)
next
  case (allowMerge a b)
  show ?case unfolding AllowMergeChangedEvent_def
    by (rule setEngine_cleanInv) (simp_all add: allowMerge.IH)
next
  case (wallBounce a b)
  show ?case unfolding WallBounceChangedEvent_def
    by (rule setEngine_cleanInv) (simp_all add: wallBounce.IH)
next
  case (historyTrail a b)
  then show ?case by (simp add: trail_cleanInv)
next
  case (historyLength a v a')
  then show ?case using length_cleanInv [of v a a'] by simp
next
  case (loopSpeed a v)
  then show ?case by (simp add: cleanInv_def PhysicsLoopSpeedChangedEvent_def roster_def particleAt_def)
next
  case (pauseResume a)
  then show ?case by (simp add: cleanInv_def PauseResumeEvent_def roster_def particleAt_def)
next
  case (reset a a')
  then show ?case using reset_cleanInv by blast
next
  case (load a fl a')
  then show ?case using load_cleanInv by blast
qed

text \<open>
  Claim C9. After a complete call of \<^verbatim>\<open>UpdateParticles\<close>, every particle of the roster has
  \<^verbatim>\<open>merging\<close> false and an empty \<^verbatim>\<open>MergingWith\<close>. First as the step of the invariant:
  from a roster of allocated particles without merge state, for every sorting function
  that permutes the roster, the call returns, and the roster it leaves is again allocated
  and without merge state. Then for the application: from every state that ticks and
  events can reach, the tick returns and leaves a roster without merge state.
\<close>

theorem merge_state_cleared_by_tick:
  "(permutes srt \<and> (\<forall>p \<in> set (Particles (Engine w)). p < nextAddr w \<and> clean (heap w p)) \<longrightarrow>
      (\<exists>r w'. UpdateParticles srt w = Some (r, w') \<and>
         (\<forall>p \<in> set (Particles (Engine w')).
             p < nextAddr w' \<and> \<not> merging (heap w' p) \<and> MergingWith (heap w' p) = []))) \<and>
   (permutes srt \<and> reachable a \<longrightarrow>
      (\<exists>a'. physicsTick srt a = Some a' \<and>
         (\<forall>p \<in> set (roster a').
             \<not> merging (particleAt a' p) \<and> MergingWith (particleAt a' p) = [])))"
proof (intro conjI impI)
  assume "permutes srt \<and> (\<forall>p \<in> set (Particles (Engine w)). p < nextAddr w \<and> clean (heap w p))"
  then have "permutes srt" "\<forall>p \<in> set (Particles (Engine w)). p < nextAddr w"
    "\<forall>p \<in> set (Particles (Engine w)). clean (heap w p)" by simp_all
  from tick_clean [OF this]
  show "\<exists>r w'. UpdateParticles srt w = Some (r, w') \<and>
         (\<forall>p \<in> set (Particles (Engine w')).
             p < nextAddr w' \<and> \<not> merging (heap w' p) \<and> MergingWith (heap w' p) = [])"
    by (simp add: clean_def)
next
  assume "permutes srt \<and> reachable a"
  then have "permutes srt" "cleanInv a" using reachable_cleanInv by simp_all
  from physicsTick_clean [OF this]
  show "\<exists>a'. physicsTick srt a = Some a' \<and>
         (\<forall>p \<in> set (roster a').
             \<not> merging (particleAt a' p) \<and> MergingWith (particleAt a' p) = [])"
    by (auto simp: cleanInv_def clean_def)
qed

lemma twoSim_fields:
  "Particles (Engine twoSim) = [0, 1]" "nextAddr twoSim = 2"
  "heap twoSim 0 = heavy" "heap twoSim 1 = light" "heap twoSim (Suc 0) = light"
  by (simp_all add: twoSim_def twoHeap_def)

theorem merge_state_cleared_by_tick_witness:
  "permutes insertionSort \<and> Particles (Engine twoSim) = [0, 1] \<and> nextAddr twoSim = 2 \<and>
   clean (heap twoSim 0) \<and> clean (heap twoSim 1) \<and>
   (\<exists>r w'. UpdateParticles insertionSort twoSim = Some (r, w') \<and>
      (\<forall>p \<in> set (Particles (Engine w')).
          p < nextAddr w' \<and> \<not> merging (heap w' p) \<and> MergingWith (heap w' p) = [])) \<and>
   reachable firstState \<and>
   (\<exists>a'. physicsTick insertionSort firstState = Some a' \<and>
      (\<forall>p \<in> set (roster a').
          \<not> merging (particleAt a' p) \<and> MergingWith (particleAt a' p) = []))"
  using merge_state_cleared_by_tick [of insertionSort twoSim firstState]
    permutes_insertionSort firstState_reachable
  by (simp add: twoSim_fields clean_def heavy_fields light_fields)

section \<open>C7: particles of equal mass after a state is loaded\<close>

text \<open>
  The saved state \<open>savedTwins\<close> holds two particles of mass 36, two units apart, with
  close charges \<open>1/2\<close> and \<open>- 1/2\<close>. Loading it into the main state returns; the roster
  is the two particles, with the history settings of the file.
\<close>

lemma loadedTwins_load: "LoadStateEvent (Some savedTwins) mainState = Some loadedTwins"
proof -
  have "\<exists>a'. LoadStateEvent (Some savedTwins) mainState = Some a'"
    using HistoryTrailLengthChangedEvent_total [of "fHistoryLength savedTwins"]
    by (simp add: LoadStateEvent_def Let_def savedTwins_def)
  then show ?thesis by (auto simp: loadedTwins_def)
qed

lemma loadedTwins_engine:
  "mergeMassRatioThreshold (Engine (sim loadedTwins)) = Fin 0"
  "mergeCloseChargeThreshold (Engine (sim loadedTwins)) = Fin 0"
  "AllowMerge (Engine (sim loadedTwins))"
  using load_resets_tuning_constants [OF loadedTwins_load] by (simp_all add: savedTwins_def)

lemma loadedTwins_roster: "roster loadedTwins = [0, 1]"
proof -
  let ?a1 = "mainState\<lparr>NumberOfParticles := fNumberOfParticles savedTwins,
      AverageMass := fAverageMass savedTwins, HistoryTrail := fHistoryTrail savedTwins,
      HistoryLength := fHistoryLength savedTwins, PhysicsLoopSpeed := fPhysicsLoopSpeed savedTwins\<rparr>"
  let ?a2 = "setRoster (map decodedParticle (fParticles savedTwins))
               (setEngine (\<lambda>_. decodedEngine savedTwins) ?a1)"
  let ?a3 = "?a2\<lparr>sim := SaveInitialParticleStates (InitializeParticles (sim ?a2))\<rparr>"
  have ev: "HistoryTrailLengthChangedEvent (fHistoryLength savedTwins)
          (HistoryTrailChangedEvent (fHistoryTrail savedTwins) ?a3) = Some loadedTwins"
    using loadedTwins_load by (simp add: LoadStateEvent_def Let_def)
  have "roster loadedTwins = roster ?a3"
    using HistoryTrailLengthChangedEvent_spec [OF ev] by (simp add: HistoryTrailChangedEvent_frame)
  also have "\<dots> = roster ?a2"
    using SaveInitialParticleStates_spec [of "InitializeParticles (sim ?a2)"]
    by (simp add: roster_def InitializeParticles_def)
  also have "\<dots> = [0, 1]"
    using setRoster_spec [of "map decodedParticle (fParticles savedTwins)"
        "setEngine (\<lambda>_. decodedEngine savedTwins) ?a1"]
    by (simp add: setEngine_def mainState_def savedTwins_def)
  finally show ?thesis .
qed

lemma loadedTwins_particles:
  "particleAt loadedTwins 0 = twinA\<lparr>trackHistory := True, historySize := 15\<rparr>"
  "particleAt loadedTwins 1 = twinB\<lparr>trackHistory := True, historySize := 15\<rparr>"
  unfolding loadedTwins_def
  by (simp_all add: LoadStateEvent_def Let_def savedTwins_def mainState_def setRoster_def setEngine_def
      decodedParticle_def decodedEngine_def InitializeParticles_def forEach_def
      SaveInitialParticleStates_def HistoryTrailChangedEvent_def HistoryTrailLengthChangedEvent_def
      roster_def particleAt_def setHeap_def truncateHistory_def initialize_def
      initializeWithValues_def SetHistorySize_def SetTrackHistory_def twinA_def twinB_def
      NewParticle_def zeroParticle_def SetMass_def SetCloseCharge_def SetFarCharge_def vzero_def)

lemma loadedTwins_fields:
  "Mass (heap (sim loadedTwins) 0) = Fin 36" "Mass (heap (sim loadedTwins) 1) = Fin 36"
  "CloseCharge (heap (sim loadedTwins) 0) = Fin (1 / 2)"
  "CloseCharge (heap (sim loadedTwins) 1) = Fin (- 1 / 2)"
  "Position (heap (sim loadedTwins) 0) = (Fin 10, Fin 10)"
  "Position (heap (sim loadedTwins) 1) = (Fin 12, Fin 10)"
  "Radius (heap (sim loadedTwins) 0) = 2" "Radius (heap (sim loadedTwins) 1) = 2"
  "MergingWith (heap (sim loadedTwins) 0) = []" "MergingWith (heap (sim loadedTwins) 1) = []"
  "\<not> bouncing (heap (sim loadedTwins) 0)" "\<not> bouncing (heap (sim loadedTwins) 1)"
  using loadedTwins_particles
  by (simp_all add: particleAt_def twinA_fields twinB_fields)

lemmas loadedTwins_fields_Suc = loadedTwins_fields [unfolded One_nat_def]

lemma firstContact_loadedTwins: "firstContact (heap (sim loadedTwins)) 0 1"
  by (simp add: firstContact_def loadedTwins_fields loadedTwins_fields_Suc Magnitude_def Subtract_def f_sub_def ofInt_def)

text \<open>
  Claim C7. Two particles of equal mass whose circles overlap at first contact are to
  bounce and never to merge, whatever their close charges and \<^verbatim>\<open>AllowMerge\<close>; with the
  threshold 2.5 of \<^verbatim>\<open>Initialize\<close> the code does so (lemma \<open>equal_masses_bounce\<close>). The
  struct copy of \<^verbatim>\<open>LoadStateEvent\<close> replaces the threshold, which no file holds, by zero.
  After loading \<open>savedTwins\<close> into the main state, whose threshold is 2.5, the threshold
  is 0; the two particles of the roster have the same mass and are in first contact;
  with the threshold at 2.5 the first would bounce off the second; with the engine as
  loaded the step of the force loop marks both as merging with each other, and neither
  bounces.
\<close>

theorem equal_masses_merge_after_load:
  "LoadStateEvent (Some savedTwins) mainState = Some loadedTwins \<and>
   mergeMassRatioThreshold (Engine (sim mainState)) = Fin (5 / 2) \<and>
   mergeMassRatioThreshold (Engine (sim loadedTwins)) = Fin 0 \<and>
   roster loadedTwins = [0, 1] \<and>
   Mass (particleAt loadedTwins 0) = Mass (particleAt loadedTwins 1) \<and>
   firstContact (heap (sim loadedTwins)) 0 1 \<and>
   bouncedOff (heap (sim loadedTwins))
     (lheap (pairStep ((Engine (sim loadedTwins))\<lparr>mergeMassRatioThreshold := Fin (5 / 2)\<rparr>) 0 1
        (startLoop (heap (sim loadedTwins))))) 0 1 \<and>
   mergedPair (heap (sim loadedTwins))
     (lheap (pairStep (Engine (sim loadedTwins)) 0 1 (startLoop (heap (sim loadedTwins))))) 0 1 \<and>
   \<not> bouncing (lheap (pairStep (Engine (sim loadedTwins)) 0 1 (startLoop (heap (sim loadedTwins)))) 0) \<and>
   \<not> bouncing (lheap (pairStep (Engine (sim loadedTwins)) 0 1 (startLoop (heap (sim loadedTwins)))) 1)"
proof -
  let ?h = "heap (sim loadedTwins)" and ?e = "Engine (sim loadedTwins)"
  have hp: "lheap (startLoop ?h) = ?h" by (simp add: startLoop_def)
  have fc: "firstContact (lheap (startLoop ?h)) 0 1"
    using firstContact_loadedTwins by (simp only: hp)
  have th: "mergeMassRatioThreshold (Engine (sim mainState)) = Fin (5 / 2)"
    by (simp add: mainEngine)
  have ms: "Mass (lheap (startLoop ?h) 0) = Mass (lheap (startLoop ?h) 1)"
    by (simp add: hp loadedTwins_fields loadedTwins_fields_Suc)
  have bo: "bouncedOff ?h (lheap (pairStep (?e\<lparr>mergeMassRatioThreshold := Fin (5 / 2)\<rparr>) 0 1
        (startLoop ?h))) 0 1"
    using equal_masses_bounce [OF fc ms, of "?e\<lparr>mergeMassRatioThreshold := Fin (5 / 2)\<rparr>" "5 / 2"]
    by (simp add: hp)
  have mc: "mergeCondition ?e (?h 0) (?h 1)"
    by (simp add: mergeCondition_def loadedTwins_engine loadedTwins_fields loadedTwins_fields_Suc f_gt_def)
  have st: "lheap (pairStep ?e 0 1 (startLoop ?h)) = collide ?e 0 1 ?h"
    using pairStep_firstContact [OF fc, of ?e] by (simp add: hp)
  have mp: "mergedPair ?h (collide ?e 0 1 ?h) 0 1"
    by (rule collide_merges [OF mc]) (simp_all add: loadedTwins_fields loadedTwins_fields_Suc)
  have nb: "\<not> bouncing (collide ?e 0 1 ?h 0)" "\<not> bouncing (collide ?e 0 1 ?h 1)"
    unfolding collide_when_merge [OF mc] by (simp_all add: loadedTwins_fields loadedTwins_fields_Suc)
  show ?thesis
    using loadedTwins_load th loadedTwins_engine(1) loadedTwins_roster fc bo mp nb
    unfolding st by (simp add: hp particleAt_def loadedTwins_fields loadedTwins_fields_Suc)
qed

end
